theory Spec2Isabelle
  imports Complex_Main "HOL-Library.Log_Nat" "HOL-Library.Word"
begin

section \<open>Python values used by bitmap.py\<close>

text \<open>
  Every exception the module can raise is a value of \<open>error\<close>; a function that may raise
  returns \<open>error + 'a\<close> with \<open>Inl\<close> for the exception. \<open>EngineError\<close> stands for the
  plain \<open>Exception\<close> that \<open>_RunCommand\<close> raises on an empty reply of the bitmaptools
  process (a missing binary fails the assertion of \<open>_BitmapTools.__init__\<close>).
\<close>

datatype error =
  ValueError | AssertionError | IndexError | OverflowError | ZeroDivisionError | EngineError

fun raise_or :: "error + 'a \<Rightarrow> ('a \<Rightarrow> error + 'b) \<Rightarrow> error + 'b" where
  "raise_or (Inl e) f = Inl e"
| "raise_or (Inr v) f = f v"

text \<open>
  Indexing a Python sequence of length \<open>n\<close> with the integer \<open>i\<close>: a negative index counts
  from the end, anything outside \<open>-n .. n-1\<close> raises IndexError (here \<open>None\<close>).
\<close>

definition py_index :: "nat \<Rightarrow> int \<Rightarrow> nat option" where
  "py_index n i =
     (if 0 \<le> i \<and> i < int n then Some (nat i)
      else if - int n \<le> i \<and> i < 0 then Some (nat (int n + i))
      else None)"

text \<open>\<open>range(n)\<close> of Python 2: the integers \<open>0 .. n-1\<close>, empty when \<open>n \<le> 0\<close>.\<close>

definition range_py :: "int \<Rightarrow> int list" where
  "range_py n = map int [0..<nat n]"

subsection \<open>Floats\<close>

text \<open>
  A Python float is an IEEE 754 binary64 number. The finite ones are rationals; \<open>fl\<close> rounds
  a rational to the nearest binary64 value (ties to even, 53 significant bits, gradual
  underflow below \<open>2^-1022\<close>) with an unbounded exponent range upwards, and the callers
  below turn a result of magnitude \<open>2^1024\<close> or more into an overflow.
\<close>

definition floor_log2 :: "rat \<Rightarrow> int" where
  "floor_log2 q =
     (if 1 \<le> q then int (floorlog 2 (nat \<lfloor>q\<rfloor>)) - 1
      else - int (floorlog 2 (nat (\<lceil>1 / q\<rceil> - 1))))"

definition pow2 :: "int \<Rightarrow> rat" where
  "pow2 e = (if 0 \<le> e then 2 ^ nat e else 1 / 2 ^ nat (- e))"

definition round_half_even :: "rat \<Rightarrow> int" where
  "round_half_even q =
     (let f = \<lfloor>q\<rfloor>; d = q - of_int f
      in if d < 1 / 2 then f else if 1 / 2 < d then f + 1
         else if even f then f else f + 1)"

definition fl :: "rat \<Rightarrow> rat" where
  "fl q = (if q = 0 then 0
           else let u = pow2 (max (floor_log2 \<bar>q\<bar>) (- 1022) - 52)
                in of_int (round_half_even (q / u)) * u)"

text \<open>The unit roundoff of binary64.\<close>

definition eps :: rat where "eps = 1 / 2 ^ 53"

datatype pyfloat = Finite rat | PosInf | NegInf | NaN

definition to_float :: "rat \<Rightarrow> pyfloat" where
  "to_float q =
     (let x = fl q
      in if 2 ^ 1024 \<le> x then PosInf else if x \<le> - (2 ^ 1024) then NegInf else Finite x)"

text \<open>\<open>float(i)\<close>, and the conversion of an int operand of a float operation.\<close>

definition float_of_int :: "int \<Rightarrow> error + pyfloat" where
  "float_of_int i =
     (let x = fl (of_int i)
      in if 2 ^ 1024 \<le> \<bar>x\<bar> then Inl OverflowError else Inr (Finite x))"

fun float_div :: "pyfloat \<Rightarrow> pyfloat \<Rightarrow> error + pyfloat" where
  "float_div x (Finite d) =
     (if d = 0 then Inl ZeroDivisionError
      else case x of
        Finite a \<Rightarrow> Inr (to_float (a / d))
      | PosInf \<Rightarrow> Inr (if 0 < d then PosInf else NegInf)
      | NegInf \<Rightarrow> Inr (if 0 < d then NegInf else PosInf)
      | NaN \<Rightarrow> Inr NaN)"
| "float_div x NaN = Inr NaN"
| "float_div (Finite a) d = Inr (Finite 0)"
| "float_div x d = Inr NaN"

text \<open>\<open>x / n\<close> for a float \<open>x\<close> and an int \<open>n\<close>.\<close>

definition float_div_int :: "pyfloat \<Rightarrow> int \<Rightarrow> error + pyfloat" where
  "float_div_int x n = raise_or (float_of_int n) (float_div x)"


fun float_abs :: "pyfloat \<Rightarrow> pyfloat" where
  "float_abs (Finite a) = Finite \<bar>a\<bar>"
| "float_abs NaN = NaN"
| "float_abs x = PosInf"

section \<open>HistogramDistance\<close>

text \<open>
  The loop of lines 42-44 over \<open>zip(hist1, hist2)\<close>, carrying \<open>total\<close> (here \<open>tot\<close>) and \<open>remainder\<close>.
\<close>

fun emd_loop :: "int \<Rightarrow> int \<Rightarrow> (int \<times> int) list \<Rightarrow> int \<Rightarrow> int \<Rightarrow> int \<times> int" where
  "emd_loop n1 n2 [] tot remainder = (tot, remainder)"
| "emd_loop n1 n2 ((value1, value2) # rest) tot remainder =
     (let remainder' = remainder + (value1 * n2 - value2 * n1);
          tot' = tot + \<bar>remainder'\<bar>
      in emd_loop n1 n2 rest tot' remainder')"

text \<open>What one bucket adds to the remainder (line 43).\<close>

definition bucket_delta :: "int \<Rightarrow> int \<Rightarrow> int \<times> int \<Rightarrow> int" where
  "bucket_delta n1 n2 z = fst z * n2 - snd z * n1"

text \<open>Line 48: \<open>abs(float(total) / n1 / n2)\<close>.\<close>

definition abs_float_div :: "int \<Rightarrow> int \<Rightarrow> int \<Rightarrow> error + pyfloat" where
  "abs_float_div tot n1 n2 =
     raise_or (float_of_int tot) (\<lambda>t.
     raise_or (float_div_int t n1) (\<lambda>q1.
     raise_or (float_div_int q1 n2) (\<lambda>q2. Inr (float_abs q2))))"

definition HistogramDistance :: "int list \<Rightarrow> int list \<Rightarrow> error + pyfloat" where
  "HistogramDistance hist1 hist2 =
     (if length hist1 \<noteq> length hist2 then Inl ValueError
      else let n1 = sum_list hist1; n2 = sum_list hist2
        in if n1 = 0 then Inl ValueError
           else if n2 = 0 then Inl ValueError
           else case emd_loop n1 n2 (zip hist1 hist2) 0 0 of
             (tot, remainder) \<Rightarrow>
               if remainder \<noteq> 0 then Inl AssertionError
               else abs_float_div tot n1 n2)"

text \<open>
  The distance in the words of the specification: the remainder after bucket \<open>i\<close> is the
  sum of \<open>hist1[j]*n2 - hist2[j]*n1\<close> over the buckets \<open>j \<le> i\<close>, and the total is the sum of
  the absolute remainders over all buckets.
\<close>

definition remainder_after :: "int list \<Rightarrow> int list \<Rightarrow> nat \<Rightarrow> int" where
  "remainder_after hist1 hist2 i =
     (\<Sum>j\<leftarrow>[0..<Suc i]. hist1 ! j * sum_list hist2 - hist2 ! j * sum_list hist1)"

definition total_spec :: "int list \<Rightarrow> int list \<Rightarrow> int" where
  "total_spec hist1 hist2 = (\<Sum>i\<leftarrow>[0..<length hist1]. \<bar>remainder_after hist1 hist2 i\<bar>)"

section \<open>RgbaColor\<close>

text \<open>
  The namedtuple \<open>RgbaColor(r, g, b, a)\<close>; the fields are Python ints, and nothing in the
  class restricts them to a byte.
\<close>

record RgbaColor =
  chan_r :: int
  chan_g :: int
  chan_b :: int
  chan_a :: int

definition rgba :: "int \<Rightarrow> int \<Rightarrow> int \<Rightarrow> int \<Rightarrow> RgbaColor" where
  "rgba r g b a = \<lparr>chan_r = r, chan_g = g, chan_b = b, chan_a = a\<rparr>"

text \<open>\<open>RgbaColor(r, g, b)\<close>: the alpha channel defaults to 255.\<close>

definition rgb :: "int \<Rightarrow> int \<Rightarrow> int \<Rightarrow> RgbaColor" where
  "rgb r g b = rgba r g b 255"

definition RgbaColor_IsEqual :: "RgbaColor \<Rightarrow> RgbaColor \<Rightarrow> int \<Rightarrow> bool" where
  "RgbaColor_IsEqual self expected_color tolerance =
     (let r_diff = \<bar>chan_r self - chan_r expected_color\<bar>;
          g_diff = \<bar>chan_g self - chan_g expected_color\<bar>;
          b_diff = \<bar>chan_b self - chan_b expected_color\<bar>;
          a_diff = \<bar>chan_a self - chan_a expected_color\<bar>
      in r_diff \<le> tolerance \<and> g_diff \<le> tolerance \<and> b_diff \<le> tolerance \<and> a_diff \<le> tolerance)"


section \<open>ColorHistogram\<close>








section \<open>Bitmap\<close>

text \<open>
  The fields \<open>_bpp\<close>, \<open>_width\<close>, \<open>_height\<close>, \<open>_pixels\<close> and \<open>_crop_box\<close> of a Bitmap object.
  The pixel buffer is a byte array. \<open>_metadata\<close> is left out: only the \<open>metadata\<close>
  property touches it.
\<close>

type_synonym byte = "8 word"

record Bitmap =
  bm_bpp :: int
  bm_width :: int
  bm_height :: int
  bm_pixels :: "byte list"
  bm_crop_box :: "(int \<times> int \<times> int \<times> int) option"

text \<open>
  Bitmaps are mutable objects and the methods below change them in place, so they work on
  a store of objects: a method takes the store and the references of \<open>self\<close> and \<open>other\<close>
  and returns its result with the store it leaves behind, also when it raises.
\<close>

type_synonym ref = nat

type_synonym heap = "ref \<Rightarrow> Bitmap"

text \<open>
  \<open>_BitmapTools(dimensions, pixels).CropPixels()\<close> runs the external bitmaptools
  binary, which is not part of the module. It is a parameter of the model: a function from
  the seven dimensions \<open>(bpp, width, height, boxleft, boxtop, boxwidth, boxheight)\<close> and the
  pixel buffer to the bytes of the reply, or to the exception raised.
\<close>

type_synonym crop_engine =
  "int \<times> int \<times> int \<times> int \<times> int \<times> int \<times> int \<Rightarrow> byte list \<Rightarrow> error + byte list"

definition Bitmap_bpp :: "heap \<Rightarrow> ref \<Rightarrow> int" where
  "Bitmap_bpp st self = bm_bpp (st self)"

definition Bitmap_width :: "heap \<Rightarrow> ref \<Rightarrow> int" where
  "Bitmap_width st self =
     (case bm_crop_box (st self) of
        Some (box_left, box_top, box_width, box_height) \<Rightarrow> box_width
      | None \<Rightarrow> bm_width (st self))"

definition Bitmap_height :: "heap \<Rightarrow> ref \<Rightarrow> int" where
  "Bitmap_height st self =
     (case bm_crop_box (st self) of
        Some (box_left, box_top, box_width, box_height) \<Rightarrow> box_height
      | None \<Rightarrow> bm_height (st self))"

text \<open>
  The \<open>pixels\<close> property: a pending crop is applied by the engine first, which replaces
  the buffer, sets the size to the box's and clears the box.
\<close>

definition Bitmap_pixels :: "crop_engine \<Rightarrow> heap \<Rightarrow> ref \<Rightarrow> (error + byte list) \<times> heap" where
  "Bitmap_pixels tools st self =
     (case bm_crop_box (st self) of
        None \<Rightarrow> (Inr (bm_pixels (st self)), st)
      | Some (box_left, box_top, box_width, box_height) \<Rightarrow>
          (case tools (bm_bpp (st self), bm_width (st self), bm_height (st self),
                       box_left, box_top, box_width, box_height) (bm_pixels (st self)) of
             Inl e \<Rightarrow> (Inl e, st)
           | Inr cropped \<Rightarrow>
               (Inr cropped,
                st(self := (st self)\<lparr>bm_pixels := cropped, bm_width := box_width,
                                       bm_height := box_height, bm_crop_box := None\<rparr>))))"

text \<open>\<open>pixels[i]\<close> on the byte array: the byte as an int, or IndexError.\<close>

definition byte_at :: "byte list \<Rightarrow> int \<Rightarrow> error + int" where
  "byte_at buf i = (case py_index (length buf) i of
                      None \<Rightarrow> Inl IndexError
                    | Some j \<Rightarrow> Inr (uint (buf ! j)))"

definition GetPixelColor ::
  "crop_engine \<Rightarrow> heap \<Rightarrow> ref \<Rightarrow> int \<Rightarrow> int \<Rightarrow> (error + RgbaColor) \<times> heap" where
  "GetPixelColor tools st self x y =
     (case Bitmap_pixels tools st self of
        (Inl e, st') \<Rightarrow> (Inl e, st')
      | (Inr pixels, st') \<Rightarrow>
          (let base = bm_bpp (st' self) * (y * bm_width (st' self) + x)
           in if bm_bpp (st' self) = 4
              then (raise_or (byte_at pixels (base + 0)) (\<lambda>r.
                    raise_or (byte_at pixels (base + 1)) (\<lambda>g.
                    raise_or (byte_at pixels (base + 2)) (\<lambda>b.
                    raise_or (byte_at pixels (base + 3)) (\<lambda>a. Inr (rgba r g b a))))), st')
              else (raise_or (byte_at pixels (base + 0)) (\<lambda>r.
                    raise_or (byte_at pixels (base + 1)) (\<lambda>g.
                    raise_or (byte_at pixels (base + 2)) (\<lambda>b. Inr (rgb r g b)))), st')))"

subsection \<open>IsEqual\<close>

text \<open>
  The inner loop of the scan (lines 247-251) over the \<open>x\<close> of one row: \<open>Inr False\<close> is the
  early \<open>return False\<close>, \<open>Inr True\<close> says that the row ended without one.
\<close>

fun scan_row ::
  "crop_engine \<Rightarrow> heap \<Rightarrow> ref \<Rightarrow> ref \<Rightarrow> int \<Rightarrow> int \<Rightarrow> int list \<Rightarrow> (error + bool) \<times> heap" where
  "scan_row tools st self other tolerance y [] = (Inr True, st)"
| "scan_row tools st self other tolerance y (x # xs) =
     (case GetPixelColor tools st self x y of
        (Inl e, st1) \<Rightarrow> (Inl e, st1)
      | (Inr c0, st1) \<Rightarrow>
          (case GetPixelColor tools st1 other x y of
             (Inl e, st2) \<Rightarrow> (Inl e, st2)
           | (Inr c1, st2) \<Rightarrow>
               if \<not> RgbaColor_IsEqual c0 c1 tolerance then (Inr False, st2)
               else scan_row tools st2 self other tolerance y xs))"

text \<open>
  The outer loop (line 246) over the \<open>y\<close>; \<open>range(self.width)\<close> is evaluated anew for
  every row. A scan that runs to its end reaches the \<open>return True\<close> of line 255.
\<close>

fun scan_rows ::
  "crop_engine \<Rightarrow> heap \<Rightarrow> ref \<Rightarrow> ref \<Rightarrow> int \<Rightarrow> int list \<Rightarrow> (error + bool) \<times> heap" where
  "scan_rows tools st self other tolerance [] = (Inr True, st)"
| "scan_rows tools st self other tolerance (y # ys) =
     (case scan_row tools st self other tolerance y (range_py (Bitmap_width st self)) of
        (Inr True, st') \<Rightarrow> scan_rows tools st' self other tolerance ys
      | stopped \<Rightarrow> stopped)"

definition IsEqual_scan ::
  "crop_engine \<Rightarrow> heap \<Rightarrow> ref \<Rightarrow> ref \<Rightarrow> int \<Rightarrow> (error + bool) \<times> heap" where
  "IsEqual_scan tools st self other tolerance =
     scan_rows tools st self other tolerance (range_py (Bitmap_height st self))"

text \<open>Line 253: \<open>self.pixels == other.pixels\<close>, the left operand first.\<close>

definition IsEqual_fast :: "crop_engine \<Rightarrow> heap \<Rightarrow> ref \<Rightarrow> ref \<Rightarrow> (error + bool) \<times> heap" where
  "IsEqual_fast tools st self other =
     (case Bitmap_pixels tools st self of
        (Inl e, st1) \<Rightarrow> (Inl e, st1)
      | (Inr pixels0, st1) \<Rightarrow>
          (case Bitmap_pixels tools st1 other of
             (Inl e, st2) \<Rightarrow> (Inl e, st2)
           | (Inr pixels1, st2) \<Rightarrow> (Inr (pixels0 = pixels1), st2)))"

definition Bitmap_IsEqual ::
  "crop_engine \<Rightarrow> heap \<Rightarrow> ref \<Rightarrow> ref \<Rightarrow> int \<Rightarrow> (error + bool) \<times> heap" where
  "Bitmap_IsEqual tools st self other tolerance =
     (if Bitmap_width st self \<noteq> Bitmap_width st other
         \<or> Bitmap_height st self \<noteq> Bitmap_height st other
      then (Inr False, st)
      else if tolerance \<noteq> 0 \<or> Bitmap_bpp st self \<noteq> Bitmap_bpp st other
      then IsEqual_scan tools st self other tolerance
      else IsEqual_fast tools st self other)"

subsection \<open>Diff\<close>

text \<open>
  \<open>diff[y][k] = v\<close> on the list of rows; the rows are separate lists, built by the list
  comprehension of line 265.
\<close>

definition set_item :: "int list list \<Rightarrow> int \<Rightarrow> int \<Rightarrow> int \<Rightarrow> error + int list list" where
  "set_item diff y k v =
     (case py_index (length diff) y of
        None \<Rightarrow> Inl IndexError
      | Some i \<Rightarrow>
          (case py_index (length (diff ! i)) k of
             None \<Rightarrow> Inl IndexError
           | Some j \<Rightarrow> Inr (diff[i := (diff ! i)[j := v]])))"




subsection \<open>Crop\<close>

text \<open>
  \<open>Crop(left, top, width, height)\<close>; the result is the reference the call returns.
\<close>

definition Crop ::
  "heap \<Rightarrow> ref \<Rightarrow> int \<Rightarrow> int \<Rightarrow> int \<Rightarrow> int \<Rightarrow> (error + ref) \<times> heap" where
  "Crop st self left top' width height =
     (case (case bm_crop_box (st self) of
              Some box \<Rightarrow> box
            | None \<Rightarrow> (0, 0, bm_width (st self), bm_height (st self))) of
        (cur_left, cur_top, cur_width, cur_height) \<Rightarrow>
          if left < 0 \<or> top' < 0 \<or> left + width > cur_width \<or> top' + height > cur_height
          then (Inl ValueError, st)
          else (Inr self,
                st(self := (st self)\<lparr>bm_crop_box :=
                     Some (cur_left + left, cur_top + top', width, height)\<rparr>)))"

section \<open>Bitmaps as the methods see them\<close>

text \<open>
  What the \<open>pixels\<close> property leaves in an object: the object itself when no crop is
  pending, and the object with the engine's reply as its buffer and the box as its size
  otherwise.
\<close>

definition materialize :: "crop_engine \<Rightarrow> Bitmap \<Rightarrow> error + Bitmap" where
  "materialize tools b =
     (case bm_crop_box b of
        None \<Rightarrow> Inr b
      | Some (box_left, box_top, box_width, box_height) \<Rightarrow>
          (case tools (bm_bpp b, bm_width b, bm_height b,
                       box_left, box_top, box_width, box_height) (bm_pixels b) of
             Inl e \<Rightarrow> Inl e
           | Inr cropped \<Rightarrow>
               Inr (b\<lparr>bm_pixels := cropped, bm_width := box_width,
                       bm_height := box_height, bm_crop_box := None\<rparr>)))"

definition view :: "crop_engine \<Rightarrow> Bitmap \<Rightarrow> Bitmap" where
  "view tools b = (case materialize tools b of Inl e \<Rightarrow> b | Inr b' \<Rightarrow> b')"

text \<open>
  The invariant that the constructor asserts (3 or 4 bytes per pixel, a buffer of
  \<open>bpp * width * height\<close> bytes), for an object without a pending crop. The size may be
  zero here, since \<open>Crop\<close> can make it so.
\<close>

definition wf_bitmap :: "Bitmap \<Rightarrow> bool" where
  "wf_bitmap b \<longleftrightarrow>
     (bm_bpp b = 3 \<or> bm_bpp b = 4) \<and> 0 \<le> bm_width b \<and> 0 \<le> bm_height b
     \<and> int (length (bm_pixels b)) = bm_bpp b * bm_width b * bm_height b
     \<and> bm_crop_box b = None"

text \<open>A bitmap is readable when the engine answers its pending crop with such an object.\<close>

definition readable :: "crop_engine \<Rightarrow> Bitmap \<Rightarrow> bool" where
  "readable tools b = (case materialize tools b of Inl e \<Rightarrow> False | Inr b' \<Rightarrow> wf_bitmap b')"

text \<open>The colour at \<open>(x, y)\<close> of an object without a pending crop.\<close>

definition pixel_color :: "Bitmap \<Rightarrow> int \<Rightarrow> int \<Rightarrow> RgbaColor" where
  "pixel_color b x y =
     (let base = nat (bm_bpp b * (y * bm_width b + x))
      in if bm_bpp b = 4
         then rgba (uint (bm_pixels b ! base)) (uint (bm_pixels b ! (base + 1)))
                   (uint (bm_pixels b ! (base + 2))) (uint (bm_pixels b ! (base + 3)))
         else rgb (uint (bm_pixels b ! base)) (uint (bm_pixels b ! (base + 1)))
                  (uint (bm_pixels b ! (base + 2))))"

text \<open>A later store: some objects have had their pending crop applied, nothing else.\<close>

definition evolves :: "crop_engine \<Rightarrow> heap \<Rightarrow> heap \<Rightarrow> bool" where
  "evolves tools st st' \<longleftrightarrow> (\<forall>r. st' r = st r \<or> st' r = view tools (st r))"

text \<open>The store shows the object \<open>v\<close> at \<open>r\<close> once the pending crop is applied.\<close>

definition sees :: "crop_engine \<Rightarrow> heap \<Rightarrow> ref \<Rightarrow> Bitmap \<Rightarrow> bool" where
  "sees tools st r v \<longleftrightarrow> readable tools (st r) \<and> view tools (st r) = v"





section \<open>Concrete objects\<close>

text \<open>
  Three bitmaps for the concrete instances below: a 2x2 RGB image, a 3x2 RGB image with
  a pending crop to its right 2x2 part, whose pixels are then those of the first, and a
  2x2 RGB image that differs from the first in its last pixel.
\<close>

definition bitmap_a :: Bitmap where
  "bitmap_a = \<lparr>bm_bpp = 3, bm_width = 2, bm_height = 2,
                bm_pixels = [10, 20, 30, 40, 50, 60, 70, 80, 90, 100, 110, 120],
                bm_crop_box = None\<rparr>"

definition bitmap_b :: Bitmap where
  "bitmap_b = \<lparr>bm_bpp = 3, bm_width = 3, bm_height = 2,
                bm_pixels = [1, 2, 3, 10, 20, 30, 40, 50, 60,
                             5, 6, 7, 70, 80, 90, 100, 110, 120],
                bm_crop_box = Some (1, 0, 2, 2)\<rparr>"

definition bitmap_c :: Bitmap where
  "bitmap_c = \<lparr>bm_bpp = 3, bm_width = 2, bm_height = 2,
                bm_pixels = [10, 20, 30, 40, 50, 60, 70, 80, 90, 100, 110, 121],
                bm_crop_box = None\<rparr>"

definition example_heap :: heap where
  "example_heap r = (if r = 0 then bitmap_a else if r = 1 then bitmap_b else bitmap_c)"

text \<open>
  An engine for the concrete instances. Modelled from the spec: the CROP_PIXELS reply of
  the external pixel engine, which the specification calls the cropped pixel buffer: the
  rows \<open>boxtop .. boxtop + boxheight - 1\<close> of the image, cut to the columns
  \<open>boxleft .. boxleft + boxwidth - 1\<close>.
\<close>

definition crop_rows :: crop_engine where
  "crop_rows dims buf =
     (case dims of (bpp, width, height, box_left, box_top, box_width, box_height) \<Rightarrow>
        Inr (concat (map (\<lambda>y. take (nat (bpp * box_width))
                                 (drop (nat (bpp * ((box_top + y) * width + box_left))) buf))
                         (range_py box_height))))"



section \<open>Theorems\<close>

subsection \<open>Rounding to a float\<close>


lemma pow2_pos: "0 < pow2 e"
  by (simp add: pow2_def)

lemma pow2_mono: "a \<le> b \<Longrightarrow> pow2 a \<le> pow2 b"
proof -
  assume ab: "a \<le> b"
  have "pow2 e = 2 powi e" for e
    by (simp add: pow2_def power_int_def inverse_eq_divide power_one_over)
  then show ?thesis using power_int_increasing [OF ab, of "2::rat"] by simp
qed

lemma pow2_floor_log2_le:
  assumes "1 \<le> q"
  shows "pow2 (floor_log2 q) \<le> q"
proof -
  let ?m = "nat \<lfloor>q\<rfloor>"
  have m: "0 < ?m" using assms by simp
  then have fpos: "0 < floorlog 2 ?m" by (simp add: floorlog_def)
  have "(2::nat) ^ (floorlog 2 ?m - 1) \<le> ?m"
    using floorlog_bounds [of ?m 2] m by simp
  then have "(of_nat ((2::nat) ^ (floorlog 2 ?m - 1)) :: rat) \<le> of_nat ?m"
    by (simp only: of_nat_le_iff)
  also have "(of_nat ?m :: rat) = of_int \<lfloor>q\<rfloor>" using assms by simp
  also have "\<dots> \<le> q" by simp
  finally have "(2::rat) ^ (floorlog 2 ?m - 1) \<le> q" by simp
  moreover have "floor_log2 q = int (floorlog 2 ?m - 1)"
    using assms fpos by (simp add: floor_log2_def)
  ultimately show ?thesis by (simp add: pow2_def)
qed

lemma round_half_even_close: "\<bar>of_int (round_half_even x) - x\<bar> \<le> 1 / 2"
proof -
  have "of_int \<lfloor>x\<rfloor> \<le> x" "x < of_int \<lfloor>x\<rfloor> + 1" by linarith+
  then show ?thesis
    by (auto simp: round_half_even_def Let_def abs_le_iff)
qed

lemma fl_close:
  assumes "1 \<le> \<bar>q\<bar>"
  shows "\<bar>fl q - q\<bar> \<le> \<bar>q\<bar> / 2"
proof -
  define e where "e = floor_log2 \<bar>q\<bar>"
  define u where "u = pow2 (max e (- 1022) - 52)"
  have le: "pow2 e \<le> \<bar>q\<bar>" unfolding e_def by (rule pow2_floor_log2_le [OF assms])
  have upos: "0 < u" unfolding u_def by (rule pow2_pos)
  have e0: "0 \<le> e"
    using assms by (simp add: e_def floor_log2_def floorlog_def)
  have "u \<le> pow2 e"
    unfolding u_def using e0 by (intro pow2_mono) simp
  then have uq: "u \<le> \<bar>q\<bar>" using le by simp
  have q0: "q \<noteq> 0" using assms by auto
  have "fl q = of_int (round_half_even (q / u)) * u"
    using q0 by (simp add: fl_def Let_def u_def e_def)
  then have "fl q - q = (of_int (round_half_even (q / u)) - q / u) * u"
    using upos by (simp add: field_simps)
  then have "\<bar>fl q - q\<bar> = \<bar>of_int (round_half_even (q / u)) - q / u\<bar> * u"
    using upos by (simp add: abs_mult)
  also have "\<dots> \<le> (1 / 2) * u"
    using upos round_half_even_close [of "q / u"] by (intro mult_right_mono) simp_all
  also have "\<dots> \<le> \<bar>q\<bar> / 2" using uq by simp
  finally show ?thesis .
qed

lemma abs_of_int_ge_1: "n \<noteq> 0 \<Longrightarrow> 1 \<le> \<bar>of_int n :: rat\<bar>"
proof -
  assume "n \<noteq> 0"
  then have "1 \<le> \<bar>n\<bar>" by linarith
  then have "(1::rat) \<le> of_int \<bar>n\<bar>" by (simp only: of_int_1_le_iff)
  then show ?thesis by simp
qed

lemma fl_of_int_nonzero: "n \<noteq> 0 \<Longrightarrow> fl (of_int n) \<noteq> 0"
proof
  assume n: "n \<noteq> 0" and z: "fl (of_int n) = 0"
  have "1 \<le> \<bar>of_int n :: rat\<bar>" using n by (rule abs_of_int_ge_1)
  from fl_close [OF this] z have "\<bar>of_int n :: rat\<bar> \<le> \<bar>of_int n\<bar> / 2" by simp
  then show False using n by simp
qed

lemma fl_of_int_bound:
  assumes "\<bar>n\<bar> < 2 ^ 1023"
  shows "\<bar>fl (of_int n)\<bar> < 2 ^ 1024"
proof (cases "n = 0")
  case True
  then show ?thesis by (simp add: fl_def)
next
  case False
  then have "1 \<le> \<bar>of_int n :: rat\<bar>" by (rule abs_of_int_ge_1)
  from fl_close [OF this] have "\<bar>fl (of_int n)\<bar> \<le> \<bar>of_int n :: rat\<bar> + \<bar>of_int n\<bar> / 2"
    by linarith
  moreover have "\<bar>of_int n :: rat\<bar> < 2 ^ 1023"
    using assms by (simp flip: of_int_abs)
  ultimately show ?thesis by simp
qed

lemma float_of_int_in_range:
  "\<bar>n\<bar> < 2 ^ 1023 \<Longrightarrow> float_of_int n = Inr (Finite (fl (of_int n)))"
  using fl_of_int_bound [of n] by (simp add: float_of_int_def Let_def)

subsection \<open>The loop of HistogramDistance\<close>


lemma sum_list_upt_Suc_shift:
  "(\<Sum>i\<leftarrow>[0..<Suc n]. f i) = f 0 + (\<Sum>i\<leftarrow>[0..<n]. f (Suc i))"
proof -
  have "[0..<Suc n] = 0 # map Suc [0..<n]"
    by (simp add: upt_conv_Cons map_Suc_upt del: upt_Suc)
  then show ?thesis by (simp add: comp_def del: upt_Suc)
qed

lemma emd_loop_sums:
  "emd_loop n1 n2 zs tot rem =
     (tot + (\<Sum>i\<leftarrow>[0..<length zs]. \<bar>rem + (\<Sum>j\<leftarrow>[0..<Suc i]. bucket_delta n1 n2 (zs ! j))\<bar>),
      rem + (\<Sum>j\<leftarrow>[0..<length zs]. bucket_delta n1 n2 (zs ! j)))"
proof (induction zs arbitrary: tot rem)
  case Nil
  show ?case by simp
next
  case (Cons z zs)
  obtain a b where z: "z = (a, b)" by (cases z)
  show ?case
    unfolding z emd_loop.simps Let_def Cons.IH length_Cons
    by (simp add: sum_list_upt_Suc_shift bucket_delta_def add.assoc del: upt_Suc)
qed

lemma emd_loop_remainder:
  "length xs = length ys \<Longrightarrow>
   snd (emd_loop n1 n2 (zip xs ys) tot rem) = rem + (sum_list xs * n2 - sum_list ys * n1)"
  by (induction xs ys arbitrary: tot rem rule: list_induct2) (simp_all add: Let_def algebra_simps)

lemma remainder_after_swap: "remainder_after h2 h1 i = - remainder_after h1 h2 i"
  unfolding remainder_after_def
  by (simp add: sum_list_subtractf del: upt_Suc)

lemma total_spec_swap:
  "length h1 = length h2 \<Longrightarrow> total_spec h2 h1 = total_spec h1 h2"
  by (simp add: total_spec_def remainder_after_swap [of h2 h1])

lemma prefix_delta_sum:
  assumes "k \<le> length h1" "k \<le> length h2" "i < k"
  shows "(\<Sum>j\<leftarrow>[0..<Suc i]. bucket_delta (sum_list h1) (sum_list h2) (take k (zip h1 h2) ! j))
         = remainder_after h1 h2 i"
proof -
  have "map (\<lambda>j. bucket_delta (sum_list h1) (sum_list h2) (take k (zip h1 h2) ! j)) [0..<Suc i]
        = map (\<lambda>j. h1 ! j * sum_list h2 - h2 ! j * sum_list h1) [0..<Suc i]"
    using assms by (intro map_cong refl) (auto simp: bucket_delta_def)
  then show ?thesis unfolding remainder_after_def by (rule arg_cong)
qed

lemma emd_loop_prefix:
  assumes "k \<le> length h1" "k \<le> length h2"
  shows "emd_loop (sum_list h1) (sum_list h2) (take k (zip h1 h2)) 0 0 =
     ((\<Sum>i\<leftarrow>[0..<k]. \<bar>remainder_after h1 h2 i\<bar>),
      (if k = 0 then 0 else remainder_after h1 h2 (k - 1)))"
proof -
  let ?d = "bucket_delta (sum_list h1) (sum_list h2)"
  let ?zs = "take k (zip h1 h2)"
  have len: "length ?zs = k" using assms by simp
  have tot: "(\<Sum>i\<leftarrow>[0..<k]. \<bar>0 + (\<Sum>j\<leftarrow>[0..<Suc i]. ?d (?zs ! j))\<bar>)
             = (\<Sum>i\<leftarrow>[0..<k]. \<bar>remainder_after h1 h2 i\<bar>)"
  proof -
    have "map (\<lambda>i. \<bar>0 + (\<Sum>j\<leftarrow>[0..<Suc i]. ?d (?zs ! j))\<bar>) [0..<k]
          = map (\<lambda>i. \<bar>remainder_after h1 h2 i\<bar>) [0..<k]"
      using assms by (intro map_cong refl) (simp add: prefix_delta_sum del: upt_Suc)
    then show ?thesis by (rule arg_cong)
  qed
  have rem: "(\<Sum>j\<leftarrow>[0..<k]. ?d (?zs ! j)) = (if k = 0 then 0 else remainder_after h1 h2 (k - 1))"
  proof (cases k)
    case 0
    then show ?thesis by simp
  next
    case (Suc i)
    then show ?thesis using prefix_delta_sum [of k h1 h2 i] assms by simp
  qed
  show ?thesis
    unfolding emd_loop_sums [of _ _ ?zs] len tot rem by simp
qed

lemma emd_loop_total:
  assumes "length h1 = length h2"
  shows "fst (emd_loop (sum_list h1) (sum_list h2) (zip h1 h2) 0 0) = total_spec h1 h2"
  using emd_loop_prefix [of "length h1" h1 h2] assms by (simp add: total_spec_def)

lemma HistogramDistance_eq:
  assumes "length h1 = length h2" "sum_list h1 \<noteq> 0" "sum_list h2 \<noteq> 0"
  shows "HistogramDistance h1 h2 = abs_float_div (total_spec h1 h2) (sum_list h1) (sum_list h2)"
proof -
  obtain t r where tr: "emd_loop (sum_list h1) (sum_list h2) (zip h1 h2) 0 0 = (t, r)"
    by (cases "emd_loop (sum_list h1) (sum_list h2) (zip h1 h2) 0 0")
  have "r = 0" using emd_loop_remainder [OF assms(1), of "sum_list h1" "sum_list h2" 0 0] tr
    by (simp add: mult.commute)
  moreover have "t = total_spec h1 h2" using emd_loop_total [OF assms(1)] tr by simp
  ultimately show ?thesis using assms tr by (simp add: HistogramDistance_def)
qed

lemma float_of_int_cases:
  "float_of_int n = Inl OverflowError \<or> float_of_int n = Inr (Finite (fl (of_int n)))"
  by (simp add: float_of_int_def Let_def)

lemma float_div_int_cases:
  assumes "n \<noteq> 0"
  shows "float_div_int x n = Inl OverflowError \<or> (\<exists>y. float_div_int x n = Inr y)"
  using float_of_int_cases [of n] fl_of_int_nonzero [OF assms]
  by (auto simp: float_div_int_def split: pyfloat.splits)

lemma abs_float_div_cases:
  assumes "n1 \<noteq> 0" "n2 \<noteq> 0"
  shows "abs_float_div t n1 n2 = Inl OverflowError \<or> (\<exists>x. abs_float_div t n1 n2 = Inr x)"
proof -
  consider "float_of_int t = Inl OverflowError" | "float_of_int t = Inr (Finite (fl (of_int t)))"
    using float_of_int_cases by blast
  then show ?thesis
  proof cases
    case 1
    then show ?thesis by (simp add: abs_float_div_def)
  next
    case 2
    show ?thesis
      using float_div_int_cases [OF assms(1), of "Finite (fl (of_int t))"]
    proof
      assume "float_div_int (Finite (fl (of_int t))) n1 = Inl OverflowError"
      then show ?thesis using 2 by (simp add: abs_float_div_def)
    next
      assume "\<exists>y. float_div_int (Finite (fl (of_int t))) n1 = Inr y"
      then obtain y where y: "float_div_int (Finite (fl (of_int t))) n1 = Inr y" ..
      show ?thesis
        using float_div_int_cases [OF assms(2), of y] 2 y
        by (auto simp: abs_float_div_def)
    qed
  qed
qed

lemma to_float_zero: "to_float 0 = Finite 0"
  by (simp add: to_float_def fl_def)

lemma float_div_int_zero:
  assumes "n \<noteq> 0" "\<bar>n\<bar> < 2 ^ 1023"
  shows "float_div_int (Finite 0) n = Inr (Finite 0)"
  using float_of_int_in_range [OF assms(2)] fl_of_int_nonzero [OF assms(1)]
  by (simp add: float_div_int_def to_float_zero)

lemma abs_float_div_zero:
  assumes "n1 \<noteq> 0" "n2 \<noteq> 0" "\<bar>n1\<bar> < 2 ^ 1023" "\<bar>n2\<bar> < 2 ^ 1023"
  shows "abs_float_div 0 n1 n2 = Inr (Finite 0)"
proof -
  have "float_of_int 0 = Inr (Finite 0)" by (simp add: float_of_int_def fl_def)
  then show ?thesis
    using float_div_int_zero [OF assms(1,3)] float_div_int_zero [OF assms(2,4)]
    by (simp add: abs_float_div_def)
qed

lemma remainder_after_self: "remainder_after h h i = 0"
  by (simp add: remainder_after_def del: upt_Suc)

lemma total_spec_self: "total_spec h h = 0"
  by (simp add: total_spec_def remainder_after_self)

lemma HistogramDistance_errors:
  assumes "HistogramDistance h1 h2 = Inl e"
  shows "e = ValueError \<or> e = OverflowError"
proof (cases "length h1 = length h2 \<and> sum_list h1 \<noteq> 0 \<and> sum_list h2 \<noteq> 0")
  case True
  then show ?thesis
    using HistogramDistance_eq [of h1 h2] assms
      abs_float_div_cases [of "sum_list h1" "sum_list h2" "total_spec h1 h2"]
    by auto
next
  case False
  then show ?thesis using assms by (auto simp: HistogramDistance_def Let_def split: if_splits)
qed

text \<open>Some roundings, evaluated.\<close>

lemma fl_examples:
  "fl 6 = 6" "fl 5 = 5" "fl 4 = 4" "fl 3 = 3" "fl 2 = 2"
  "fl (6 / 5) = 5404319552844595 / 4503599627370496"
  "fl (5404319552844595 / 13510798882111488) = 7205759403792793 / 18014398509481984"
  "fl (2 / 5) = 3602879701896397 / 9007199254740992"
  "fl (1 / 2) = 1 / 2" "fl (1 / 8) = 1 / 8"
  by code_simp+

lemma float_of_int_examples:
  "float_of_int 6 = Inr (Finite 6)" "float_of_int 5 = Inr (Finite 5)"
  "float_of_int 4 = Inr (Finite 4)" "float_of_int 3 = Inr (Finite 3)"
  "float_of_int 2 = Inr (Finite 2)"
  by (simp_all add: float_of_int_def fl_examples)

lemma abs_float_div_examples:
  "abs_float_div 6 3 5 = Inr (Finite (3602879701896397 / 9007199254740992))"
  "abs_float_div 6 5 3 = Inr (Finite (7205759403792793 / 18014398509481984))"
  by (simp_all add: abs_float_div_def float_div_int_def float_of_int_examples to_float_def
      Let_def fl_examples)

subsection \<open>The loop of ColorHistogram.Distance\<close>










subsection \<open>Reading pixels\<close>

lemma materialize_no_box: "bm_crop_box b = None \<Longrightarrow> materialize tools b = Inr b"
  by (simp add: materialize_def)

lemma materialize_result_no_box: "materialize tools b = Inr b' \<Longrightarrow> bm_crop_box b' = None"
  by (auto simp: materialize_def split: option.splits sum.splits)

lemma view_no_box: "bm_crop_box b = None \<Longrightarrow> view tools b = b"
  by (simp add: view_def materialize_no_box)

lemma view_idem: "view tools (view tools b) = view tools b"
proof (cases "materialize tools b")
  case (Inl e)
  then show ?thesis by (simp add: view_def)
next
  case (Inr b')
  then show ?thesis using materialize_result_no_box [OF Inr]
    by (simp add: view_def materialize_no_box)
qed

lemma readable_view: "readable tools b \<Longrightarrow> wf_bitmap (view tools b)"
  by (auto simp: readable_def view_def split: sum.splits)

lemma readable_materialize: "readable tools b \<Longrightarrow> materialize tools b = Inr (view tools b)"
  by (auto simp: readable_def view_def split: sum.splits)

lemma wf_readable: "wf_bitmap b \<Longrightarrow> readable tools b"
  by (simp add: readable_def wf_bitmap_def materialize_no_box)

lemma readable_view_readable: "readable tools b \<Longrightarrow> readable tools (view tools b)"
  by (rule wf_readable) (rule readable_view)

lemma Bitmap_pixels_materialize:
  "Bitmap_pixels tools st r =
     (case materialize tools (st r) of
        Inl e \<Rightarrow> (Inl e, st)
      | Inr b' \<Rightarrow> (Inr (bm_pixels b'), st(r := b')))"
  by (auto simp: Bitmap_pixels_def materialize_def split: option.splits sum.splits)

lemma Bitmap_pixels_readable:
  "readable tools (st r) \<Longrightarrow>
   Bitmap_pixels tools st r = (Inr (bm_pixels (view tools (st r))), st(r := view tools (st r)))"
  by (simp add: Bitmap_pixels_materialize readable_materialize)

lemma view_bpp: "bm_bpp (view tools b) = bm_bpp b"
  by (auto simp: view_def materialize_def split: option.splits sum.splits)

lemma view_width:
  "readable tools b \<Longrightarrow>
   bm_width (view tools b) = (case bm_crop_box b of Some (l, t, w, h) \<Rightarrow> w | None \<Rightarrow> bm_width b)"
  by (auto simp: readable_def view_def materialize_def split: option.splits sum.splits)

lemma view_height:
  "readable tools b \<Longrightarrow>
   bm_height (view tools b) = (case bm_crop_box b of Some (l, t, w, h) \<Rightarrow> h | None \<Rightarrow> bm_height b)"
  by (auto simp: readable_def view_def materialize_def split: option.splits sum.splits)

lemma Bitmap_width_view: "readable tools (st r) \<Longrightarrow> Bitmap_width st r = bm_width (view tools (st r))"
  by (simp add: Bitmap_width_def view_width)

lemma Bitmap_height_view: "readable tools (st r) \<Longrightarrow> Bitmap_height st r = bm_height (view tools (st r))"
  by (simp add: Bitmap_height_def view_height)

lemma Bitmap_bpp_view: "Bitmap_bpp st r = bm_bpp (view tools (st r))"
  by (simp add: Bitmap_bpp_def view_bpp)

lemma evolves_refl: "evolves tools st st"
  by (simp add: evolves_def)

lemma evolves_view: "evolves tools st st' \<Longrightarrow> view tools (st' r) = view tools (st r)"
  by (auto simp: evolves_def view_idem dest: spec [of _ r])

lemma evolves_trans: "evolves tools st st1 \<Longrightarrow> evolves tools st1 st2 \<Longrightarrow> evolves tools st st2"
  unfolding evolves_def
proof
  fix r
  assume a: "\<forall>r. st1 r = st r \<or> st1 r = view tools (st r)"
    and b: "\<forall>r. st2 r = st1 r \<or> st2 r = view tools (st1 r)"
  from a have "st1 r = st r \<or> st1 r = view tools (st r)" ..
  moreover from b have "st2 r = st1 r \<or> st2 r = view tools (st1 r)" ..
  ultimately show "st2 r = st r \<or> st2 r = view tools (st r)"
    by (auto simp: view_idem)
qed

lemma evolves_upd: "evolves tools st (st(r := view tools (st r)))"
  by (simp add: evolves_def)

lemma evolves_readable:
  "evolves tools st st' \<Longrightarrow> readable tools (st r) \<Longrightarrow> readable tools (st' r)"
  by (auto simp: evolves_def readable_view_readable dest: spec [of _ r])

lemma evolves_width:
  assumes "evolves tools st st'" "readable tools (st r)"
  shows "Bitmap_width st' r = Bitmap_width st r"
  using assms evolves_readable [OF assms]
  by (simp add: Bitmap_width_view evolves_view)

lemma evolves_height:
  assumes "evolves tools st st'" "readable tools (st r)"
  shows "Bitmap_height st' r = Bitmap_height st r"
  using assms evolves_readable [OF assms]
  by (simp add: Bitmap_height_view evolves_view)

lemma byte_at_in_range:
  "0 \<le> i \<Longrightarrow> i < int (length buf) \<Longrightarrow> byte_at buf i = Inr (uint (buf ! nat i))"
  by (simp add: byte_at_def py_index_def)

lemma cell_in_grid:
  fixes x y w h :: int
  assumes "0 \<le> x" "x < w" "0 \<le> y" "y < h"
  shows "0 \<le> y * w + x" and "y * w + x + 1 \<le> w * h"
proof -
  show "0 \<le> y * w + x" using assms by simp
  have "y * w + x + 1 \<le> y * w + w" using assms by simp
  also have "\<dots> = (y + 1) * w" by (simp add: algebra_simps)
  also have "\<dots> \<le> h * w" using assms by (intro mult_right_mono) simp_all
  finally show "y * w + x + 1 \<le> w * h" by (simp add: mult.commute)
qed

lemma pixel_bytes_in_buffer:
  fixes x y w h bpp k :: int
  assumes "0 \<le> x" "x < w" "0 \<le> y" "y < h" "0 < bpp" "0 \<le> k" "k < bpp"
  shows "0 \<le> bpp * (y * w + x) + k" and "bpp * (y * w + x) + k < bpp * w * h"
proof -
  note c = cell_in_grid [OF assms(1-4)]
  show "0 \<le> bpp * (y * w + x) + k" using c(1) assms by simp
  have "bpp * (y * w + x) + k < bpp * (y * w + x) + bpp" using assms by simp
  also have "\<dots> = bpp * (y * w + x + 1)" by (simp add: algebra_simps)
  also have "\<dots> \<le> bpp * (w * h)" using c(2) assms by (intro mult_left_mono) simp_all
  finally show "bpp * (y * w + x) + k < bpp * w * h" by (simp add: mult.assoc)
qed

lemma GetPixelColor_readable:
  assumes rd: "readable tools (st r)"
    and x: "0 \<le> x" "x < Bitmap_width st r" and y: "0 \<le> y" "y < Bitmap_height st r"
  shows "GetPixelColor tools st r x y =
           (Inr (pixel_color (view tools (st r)) x y), st(r := view tools (st r)))"
proof -
  let ?b = "view tools (st r)"
  have wf: "wf_bitmap ?b" using rd by (rule readable_view)
  have px: "Bitmap_pixels tools st r = (Inr (bm_pixels ?b), st(r := ?b))"
    using rd by (rule Bitmap_pixels_readable)
  have xw: "x < bm_width ?b" and yh: "y < bm_height ?b"
    using x y rd by (simp_all add: Bitmap_width_view Bitmap_height_view)
  have len: "int (length (bm_pixels ?b)) = bm_bpp ?b * bm_width ?b * bm_height ?b"
    using wf by (simp add: wf_bitmap_def)
  have bpp: "bm_bpp ?b = 3 \<or> bm_bpp ?b = 4" using wf by (simp add: wf_bitmap_def)
  have rdk: "byte_at (bm_pixels ?b) (bm_bpp ?b * (y * bm_width ?b + x) + k)
        = Inr (uint (bm_pixels ?b ! (nat (bm_bpp ?b * (y * bm_width ?b + x)) + nat k)))"
    if "0 \<le> k" "k < bm_bpp ?b" for k
  proof -
    have pos: "0 < bm_bpp ?b" using bpp by auto
    note p = pixel_bytes_in_buffer [OF x(1) xw y(1) yh pos that]
    note q = pixel_bytes_in_buffer [OF x(1) xw y(1) yh pos order_refl pos]
    have "nat (bm_bpp ?b * (y * bm_width ?b + x) + k)
          = nat (bm_bpp ?b * (y * bm_width ?b + x)) + nat k"
      using q(1) that by (simp add: nat_add_distrib)
    then show ?thesis
      using byte_at_in_range [of "bm_bpp ?b * (y * bm_width ?b + x) + k" "bm_pixels ?b"] p len
      by simp
  qed
  show ?thesis
  proof (cases "bm_bpp ?b = 4")
    case True
    then show ?thesis
      using rdk [of 0] rdk [of 1] rdk [of 2] rdk [of 3]
      by (simp add: GetPixelColor_def px pixel_color_def Let_def)
  next
    case False
    then have "bm_bpp ?b = 3" using bpp by simp
    then show ?thesis
      using rdk [of 0] rdk [of 1] rdk [of 2]
      by (simp add: GetPixelColor_def px pixel_color_def Let_def)
  qed
qed

lemma sees_evolves: "sees tools st r v \<Longrightarrow> evolves tools st st' \<Longrightarrow> sees tools st' r v"
  by (simp add: sees_def evolves_readable evolves_view)

lemma sees_wf: "sees tools st r v \<Longrightarrow> wf_bitmap v"
  by (auto simp: sees_def readable_view)

lemma sees_width: "sees tools st r v \<Longrightarrow> Bitmap_width st r = bm_width v"
  by (auto simp: sees_def Bitmap_width_view)

lemma sees_height: "sees tools st r v \<Longrightarrow> Bitmap_height st r = bm_height v"
  by (auto simp: sees_def Bitmap_height_view)

lemma sees_bpp: "sees tools st r v \<Longrightarrow> Bitmap_bpp st r = bm_bpp v"
  by (auto simp: sees_def Bitmap_bpp_view)

lemma sees_GetPixelColor:
  assumes "sees tools st r v" "0 \<le> x" "x < bm_width v" "0 \<le> y" "y < bm_height v"
  shows "\<exists>st'. GetPixelColor tools st r x y = (Inr (pixel_color v x y), st') \<and> evolves tools st st'"
proof -
  have rd: "readable tools (st r)" and v: "view tools (st r) = v"
    using assms(1) by (simp_all add: sees_def)
  have "GetPixelColor tools st r x y =
           (Inr (pixel_color (view tools (st r)) x y), st(r := view tools (st r)))"
    using rd assms(2-5) sees_width [OF assms(1)] sees_height [OF assms(1)]
    by (intro GetPixelColor_readable) simp_all
  then show ?thesis using v evolves_upd [of tools st r] by auto
qed

lemma sees_pixels:
  assumes "sees tools st r v"
  shows "\<exists>st'. Bitmap_pixels tools st r = (Inr (bm_pixels v), st') \<and> evolves tools st st'"
proof -
  have rd: "readable tools (st r)" and v: "view tools (st r) = v"
    using assms(1) by (simp_all add: sees_def)
  show ?thesis
    using Bitmap_pixels_readable [of tools st r] rd v evolves_upd [of tools st r] by auto
qed

lemma scan_row_sees:
  assumes "sees tools st a va" "sees tools st b vb" "0 \<le> y" "y < bm_height va" "y < bm_height vb"
    and "\<forall>x\<in>set xs. 0 \<le> x \<and> x < bm_width va \<and> x < bm_width vb"
  shows "\<exists>st'. scan_row tools st a b tol y xs =
            (Inr (list_all (\<lambda>x. RgbaColor_IsEqual (pixel_color va x y) (pixel_color vb x y) tol) xs), st')
          \<and> evolves tools st st'"
  using assms
proof (induction xs arbitrary: st)
  case Nil
  then show ?case by (simp add: evolves_refl)
next
  case (Cons x xs)
  have x: "0 \<le> x" "x < bm_width va" "x < bm_width vb" using Cons.prems(6) by simp_all
  obtain st1 where g1: "GetPixelColor tools st a x y = (Inr (pixel_color va x y), st1)"
    and e1: "evolves tools st st1"
    using sees_GetPixelColor [OF Cons.prems(1) x(1,2) Cons.prems(3,4)] by blast
  have b1: "sees tools st1 b vb" using Cons.prems(2) e1 by (rule sees_evolves)
  obtain st2 where g2: "GetPixelColor tools st1 b x y = (Inr (pixel_color vb x y), st2)"
    and e2: "evolves tools st1 st2"
    using sees_GetPixelColor [OF b1 x(1,3) Cons.prems(3,5)] by blast
  have e: "evolves tools st st2" using e1 e2 by (rule evolves_trans)
  show ?case
  proof (cases "RgbaColor_IsEqual (pixel_color va x y) (pixel_color vb x y) tol")
    case False
    then show ?thesis using g1 g2 e by simp
  next
    case True
    have "\<exists>st'. scan_row tools st2 a b tol y xs =
            (Inr (list_all (\<lambda>x. RgbaColor_IsEqual (pixel_color va x y) (pixel_color vb x y) tol) xs), st')
          \<and> evolves tools st2 st'"
      using Cons.prems e by (intro Cons.IH sees_evolves [of tools st _ _ st2]) simp_all
    then obtain st' where r: "scan_row tools st2 a b tol y xs =
            (Inr (list_all (\<lambda>x. RgbaColor_IsEqual (pixel_color va x y) (pixel_color vb x y) tol) xs), st')"
      and e': "evolves tools st2 st'" by blast
    show ?thesis using g1 g2 True r evolves_trans [OF e e'] by simp
  qed
qed

lemma set_range_py: "set (range_py n) = {i. 0 \<le> i \<and> i < n}"
proof -
  have "i \<in> int ` {0..<nat n} \<longleftrightarrow> 0 \<le> i \<and> i < n" for i
  proof
    assume "i \<in> int ` {0..<nat n}"
    then show "0 \<le> i \<and> i < n" by auto
  next
    assume "0 \<le> i \<and> i < n"
    then have "i = int (nat i)" "nat i \<in> {0..<nat n}" by auto
    then show "i \<in> int ` {0..<nat n}" by (rule image_eqI)
  qed
  then show ?thesis by (auto simp: range_py_def)
qed

lemma scan_rows_sees:
  assumes "sees tools st a va" "sees tools st b vb" "bm_width va = bm_width vb"
    and "\<forall>y\<in>set ys. 0 \<le> y \<and> y < bm_height va \<and> y < bm_height vb"
  shows "\<exists>st'. scan_rows tools st a b tol ys =
            (Inr (list_all (\<lambda>y. list_all (\<lambda>x.
                    RgbaColor_IsEqual (pixel_color va x y) (pixel_color vb x y) tol)
                      (range_py (bm_width va))) ys), st')
          \<and> evolves tools st st'"
  using assms
proof (induction ys arbitrary: st)
  case Nil
  then show ?case by (simp add: evolves_refl)
next
  case (Cons y ys)
  have y: "0 \<le> y" "y < bm_height va" "y < bm_height vb" using Cons.prems(4) by simp_all
  have w: "Bitmap_width st a = bm_width va" using Cons.prems(1) by (rule sees_width)
  have xs: "\<forall>x\<in>set (range_py (bm_width va)). 0 \<le> x \<and> x < bm_width va \<and> x < bm_width vb"
    using Cons.prems(3) by (simp add: set_range_py)
  obtain st1 where r1: "scan_row tools st a b tol y (range_py (bm_width va)) =
            (Inr (list_all (\<lambda>x. RgbaColor_IsEqual (pixel_color va x y) (pixel_color vb x y) tol)
                    (range_py (bm_width va))), st1)"
    and e1: "evolves tools st st1"
    using scan_row_sees [OF Cons.prems(1,2) y xs] by blast
  show ?case
  proof (cases "list_all (\<lambda>x. RgbaColor_IsEqual (pixel_color va x y) (pixel_color vb x y) tol)
                    (range_py (bm_width va))")
    case False
    then show ?thesis using r1 e1 w by simp
  next
    case True
    have "\<exists>st'. scan_rows tools st1 a b tol ys =
            (Inr (list_all (\<lambda>y. list_all (\<lambda>x.
                    RgbaColor_IsEqual (pixel_color va x y) (pixel_color vb x y) tol)
                      (range_py (bm_width va))) ys), st')
          \<and> evolves tools st1 st'"
      using Cons.prems e1 by (intro Cons.IH sees_evolves [of tools st _ _ st1]) simp_all
    then obtain st' where r: "scan_rows tools st1 a b tol ys =
            (Inr (list_all (\<lambda>y. list_all (\<lambda>x.
                    RgbaColor_IsEqual (pixel_color va x y) (pixel_color vb x y) tol)
                      (range_py (bm_width va))) ys), st')"
      and e': "evolves tools st1 st'" by blast
    show ?thesis using r1 True r w evolves_trans [OF e1 e'] by simp
  qed
qed

lemma IsEqual_scan_sees:
  assumes "sees tools st a va" "sees tools st b vb"
    and "bm_width va = bm_width vb" "bm_height va = bm_height vb"
  shows "\<exists>st'. IsEqual_scan tools st a b tol =
            (Inr (list_all (\<lambda>y. list_all (\<lambda>x.
                    RgbaColor_IsEqual (pixel_color va x y) (pixel_color vb x y) tol)
                      (range_py (bm_width va))) (range_py (bm_height va))), st')
          \<and> evolves tools st st'"
proof -
  have h: "Bitmap_height st a = bm_height va" using assms(1) by (rule sees_height)
  have "\<forall>y\<in>set (range_py (bm_height va)). 0 \<le> y \<and> y < bm_height va \<and> y < bm_height vb"
    using assms(4) by (simp add: set_range_py)
  from scan_rows_sees [OF assms(1,2,3) this] show ?thesis
    by (simp add: IsEqual_scan_def h)
qed

lemma IsEqual_fast_sees:
  assumes "sees tools st a va" "sees tools st b vb"
  shows "\<exists>st'. IsEqual_fast tools st a b = (Inr (bm_pixels va = bm_pixels vb), st')
          \<and> evolves tools st st'"
proof -
  obtain st1 where p1: "Bitmap_pixels tools st a = (Inr (bm_pixels va), st1)"
    and e1: "evolves tools st st1"
    using sees_pixels [OF assms(1)] by blast
  obtain st2 where p2: "Bitmap_pixels tools st1 b = (Inr (bm_pixels vb), st2)"
    and e2: "evolves tools st1 st2"
    using sees_pixels [OF sees_evolves [OF assms(2) e1]] by blast
  show ?thesis using p1 p2 evolves_trans [OF e1 e2] by (simp add: IsEqual_fast_def)
qed

subsection \<open>Buffers and pixels\<close>

lemma RgbaColor_IsEqual_zero: "RgbaColor_IsEqual c e 0 \<longleftrightarrow> c = e"
  by (cases c; cases e) (auto simp: RgbaColor_IsEqual_def)

lemma pixel_color_cong:
  assumes "bm_bpp va = bm_bpp vb" "bm_width va = bm_width vb" "bm_pixels va = bm_pixels vb"
  shows "pixel_color va x y = pixel_color vb x y"
  unfolding pixel_color_def assms ..

lemma pixel_color_eq_bytes:
  assumes "bm_bpp va = bm_bpp vb" "bm_width va = bm_width vb" "bm_bpp va = 3 \<or> bm_bpp va = 4"
    and "pixel_color va x y = pixel_color vb x y" and "c < nat (bm_bpp va)"
  shows "bm_pixels va ! (nat (bm_bpp va * (y * bm_width va + x)) + c)
       = bm_pixels vb ! (nat (bm_bpp va * (y * bm_width va + x)) + c)"
proof -
  let ?base = "nat (bm_bpp va * (y * bm_width va + x))"
  have eq: "uint (bm_pixels va ! ?base) = uint (bm_pixels vb ! ?base)"
    "uint (bm_pixels va ! (?base + 1)) = uint (bm_pixels vb ! (?base + 1))"
    "uint (bm_pixels va ! (?base + 2)) = uint (bm_pixels vb ! (?base + 2))"
    "bm_bpp va = 4 \<Longrightarrow> uint (bm_pixels va ! (?base + 3)) = uint (bm_pixels vb ! (?base + 3))"
    using assms(1-4) by (auto simp: pixel_color_def Let_def rgba_def rgb_def split: if_splits)
  have "c = 0 \<or> c = 1 \<or> c = 2 \<or> (c = 3 \<and> bm_bpp va = 4)"
    using assms(3,5) by auto
  then show ?thesis using eq by (auto intro: word_uint_eqI)
qed


lemma buffers_equal_iff:
  assumes wa: "wf_bitmap va" and wb: "wf_bitmap vb"
    and bpp: "bm_bpp va = bm_bpp vb" and w: "bm_width va = bm_width vb"
    and h: "bm_height va = bm_height vb"
  shows "bm_pixels va = bm_pixels vb \<longleftrightarrow>
         list_all (\<lambda>y. list_all (\<lambda>x.
            RgbaColor_IsEqual (pixel_color va x y) (pixel_color vb x y) 0)
              (range_py (bm_width va))) (range_py (bm_height va))"
proof
  assume "bm_pixels va = bm_pixels vb"
  with bpp w have "pixel_color va x y = pixel_color vb x y" for x y
    by (rule pixel_color_cong)
  then show "list_all (\<lambda>y. list_all (\<lambda>x.
            RgbaColor_IsEqual (pixel_color va x y) (pixel_color vb x y) 0)
              (range_py (bm_width va))) (range_py (bm_height va))"
    by (simp add: list_all_iff RgbaColor_IsEqual_zero)
next
  assume "list_all (\<lambda>y. list_all (\<lambda>x.
            RgbaColor_IsEqual (pixel_color va x y) (pixel_color vb x y) 0)
              (range_py (bm_width va))) (range_py (bm_height va))"
  then have same: "pixel_color va x y = pixel_color vb x y"
    if "0 \<le> x" "x < bm_width va" "0 \<le> y" "y < bm_height va" for x y
    using that by (simp add: list_all_iff RgbaColor_IsEqual_zero set_range_py)
  define n where "n = nat (bm_bpp va)"
  define W where "W = nat (bm_width va)"
  define H where "H = nat (bm_height va)"
  have b34: "bm_bpp va = 3 \<or> bm_bpp va = 4" using wa by (simp add: wf_bitmap_def)
  have w0: "0 \<le> bm_width va" and h0: "0 \<le> bm_height va" using wa by (simp_all add: wf_bitmap_def)
  have nint: "int n = bm_bpp va" using b34 by (auto simp: n_def)
  have Wint: "int W = bm_width va" using w0 by (simp add: W_def)
  have Hint: "int H = bm_height va" using h0 by (simp add: H_def)
  have npos: "0 < n" using b34 by (auto simp: n_def)
  have "int (length (bm_pixels va)) = bm_bpp va * bm_width va * bm_height va"
    using wa by (simp add: wf_bitmap_def)
  then have "int (length (bm_pixels va)) = int (n * W * H)"
    by (simp only: nint [symmetric] Wint [symmetric] Hint [symmetric] of_nat_mult)
  then have la: "length (bm_pixels va) = n * W * H" by (simp only: of_nat_eq_iff)
  have "int (length (bm_pixels vb)) = bm_bpp va * bm_width va * bm_height va"
    using wb bpp w h by (simp add: wf_bitmap_def)
  then have "int (length (bm_pixels vb)) = int (n * W * H)"
    by (simp only: nint [symmetric] Wint [symmetric] Hint [symmetric] of_nat_mult)
  then have lb: "length (bm_pixels vb) = n * W * H" by (simp only: of_nat_eq_iff)
  show "bm_pixels va = bm_pixels vb"
  proof (rule nth_equalityI)
    show "length (bm_pixels va) = length (bm_pixels vb)" using la lb by simp
  next
    fix k assume "k < length (bm_pixels va)"
    then have k: "k < n * (W * H)" using la by (simp add: mult.assoc)
    define p where "p = k div n"
    define c where "c = k mod n"
    have c: "c < n" using npos by (simp add: c_def)
    have kpc: "k = n * p + c" by (simp add: p_def c_def)
    have p: "p < W * H" using k npos by (simp add: p_def less_mult_imp_div_less mult.commute)
    then have Wpos: "0 < W" by (cases W) simp_all
    define y where "y = p div W"
    define x where "x = p mod W"
    have x: "x < W" using Wpos by (simp add: x_def)
    have y: "y < H" using p Wpos by (simp add: y_def less_mult_imp_div_less mult.commute)
    have pyx: "p = y * W + x" by (simp add: x_def y_def)
    have xi: "0 \<le> int x" "int x < bm_width va" using x by (simp_all add: Wint [symmetric])
    have yi: "0 \<le> int y" "int y < bm_height va" using y by (simp_all add: Hint [symmetric])
    have "bm_bpp va * (int y * bm_width va + int x) = int (n * p)"
      unfolding nint [symmetric] Wint [symmetric] pyx by simp
    then have base: "nat (bm_bpp va * (int y * bm_width va + int x)) = n * p"
      by (simp only: nat_int)
    have "bm_pixels va ! (nat (bm_bpp va * (int y * bm_width va + int x)) + c)
        = bm_pixels vb ! (nat (bm_bpp va * (int y * bm_width va + int x)) + c)"
      using bpp w b34 same [OF xi yi] c unfolding n_def
      by (rule pixel_color_eq_bytes)
    then show "bm_pixels va ! k = bm_pixels vb ! k"
      by (simp add: base kpc)
  qed
qed

subsection \<open>The loops of Diff\<close>

lemma set_item_in_range:
  assumes "0 \<le> y" "y < int (length diff)" "0 \<le> k" "k < int (length (diff ! nat y))"
  shows "set_item diff y k v = Inr (diff[nat y := (diff ! nat y)[nat k := v]])"
  using assms by (simp add: set_item_def py_index_def)











subsection \<open>The concrete objects\<close>

lemma range_py_2: "range_py 2 = [0, 1]"
  by (simp add: range_py_def upt_rec)

lemma view_a: "view crop_rows bitmap_a = bitmap_a"
  by (simp add: view_no_box bitmap_a_def)

lemma view_c: "view crop_rows bitmap_c = bitmap_c"
  by (simp add: view_no_box bitmap_c_def)

lemma view_b: "view crop_rows bitmap_b = bitmap_a"
  by (simp add: view_def materialize_def bitmap_b_def bitmap_a_def crop_rows_def range_py_2)

lemma readable_examples:
  "readable crop_rows bitmap_a" "readable crop_rows bitmap_b" "readable crop_rows bitmap_c"
  by (simp_all add: readable_def materialize_def bitmap_b_def bitmap_a_def bitmap_c_def
      crop_rows_def range_py_2 wf_bitmap_def)

lemma example_views:
  "view crop_rows (example_heap 0) = bitmap_a" "view crop_rows (example_heap 1) = bitmap_a"
  "view crop_rows (example_heap 2) = bitmap_c"
  by (simp_all add: example_heap_def view_a view_b view_c)

lemma example_readable:
  "readable crop_rows (example_heap 0)" "readable crop_rows (example_heap 1)"
  "readable crop_rows (example_heap 2)"
  by (simp_all add: example_heap_def readable_examples)

lemma example_sizes:
  "Bitmap_width example_heap 0 = 2" "Bitmap_height example_heap 0 = 2"
  "Bitmap_width example_heap 1 = 2" "Bitmap_height example_heap 1 = 2"
  "Bitmap_width example_heap 2 = 2" "Bitmap_height example_heap 2 = 2"
  "Bitmap_bpp example_heap 0 = 3" "Bitmap_bpp example_heap 1 = 3" "Bitmap_bpp example_heap 2 = 3"
  by (simp_all add: example_heap_def Bitmap_width_def Bitmap_height_def Bitmap_bpp_def
      bitmap_a_def bitmap_b_def bitmap_c_def)


subsection \<open>The value of line 48\<close>

lemma pow2_floor_log2_le_small:
  assumes "0 < q" "q < 1"
  shows "pow2 (floor_log2 q) \<le> q"
proof -
  define c where "c = \<lceil>1 / q\<rceil>"
  define m where "m = nat (c - 1)"
  define k where "k = floorlog 2 m"
  have "1 < 1 / q" using assms by simp
  then have c2: "2 \<le> c" unfolding c_def by linarith
  then have m0: "0 < m" by (simp add: m_def)
  then have k0: "0 < k" by (simp add: k_def floorlog_def)
  have "m < 2 ^ k" using floorlog_bounds [of m 2] m0 by (simp add: k_def)
  then have "int m < 2 ^ k" by (metis of_nat_less_iff of_nat_numeral of_nat_power)
  then have "c \<le> 2 ^ k" using c2 by (simp add: m_def)
  then have "(of_int c :: rat) \<le> 2 ^ k" by (metis of_int_le_iff of_int_numeral of_int_power)
  moreover have "1 / q \<le> of_int c" unfolding c_def by linarith
  ultimately have "1 / q \<le> 2 ^ k" by linarith
  then have "1 / 2 ^ k \<le> q" using assms(1) by (simp add: field_simps)
  moreover have "floor_log2 q = - int k"
    using assms by (simp add: floor_log2_def c_def m_def k_def)
  ultimately show ?thesis using k0 by (simp add: pow2_def)
qed

lemma pow2_floor_log2_le_pos: "0 < q \<Longrightarrow> pow2 (floor_log2 q) \<le> q"
  using pow2_floor_log2_le [of q] pow2_floor_log2_le_small [of q] by (cases "1 \<le> q") simp_all

lemma floor_log2_ge:
  assumes "pow2 (- 1022) \<le> q"
  shows "- 1022 \<le> floor_log2 q"
proof (cases "1 \<le> q")
  case True
  then show ?thesis by (simp add: floor_log2_def)
next
  case False
  have q0: "0 < q" using assms pow2_pos [of "- 1022"] by linarith
  define c where "c = \<lceil>1 / q\<rceil>"
  define m where "m = nat (c - 1)"
  have "1 / 2 ^ 1022 \<le> q" using assms by (simp add: pow2_def)
  then have "1 / q \<le> 2 ^ 1022" using q0 by (simp add: field_simps)
  then have "c \<le> 2 ^ 1022" unfolding c_def by (simp add: ceiling_le_iff)
  then have "int m < 2 ^ 1022" by (simp add: m_def)
  then have "m < 2 ^ 1022" by (metis of_nat_less_iff of_nat_numeral of_nat_power)
  then have "floorlog 2 m \<le> 1022" by (intro floorlog_leI) simp_all
  moreover have "floor_log2 q = - int (floorlog 2 m)"
    using False by (simp add: floor_log2_def c_def m_def)
  ultimately show ?thesis by simp
qed

lemma pow2_diff: "pow2 (e - 52) = pow2 e / 2 ^ 52"
proof -
  have p: "pow2 e = 2 powi e" for e
    by (simp add: pow2_def power_int_def inverse_eq_divide power_one_over)
  have "(2::rat) powi (e - 52) = 2 powi e / 2 powi 52"
    by (simp add: power_int_diff)
  then show ?thesis by (simp add: p)
qed

lemma fl_rel:
  assumes "pow2 (- 1022) \<le> \<bar>q\<bar>"
  shows "\<bar>fl q - q\<bar> \<le> \<bar>q\<bar> / 2 ^ 53"
proof -
  define e where "e = floor_log2 \<bar>q\<bar>"
  define u where "u = pow2 (e - 52)"
  have q0: "0 < \<bar>q\<bar>" using assms pow2_pos [of "- 1022"] by linarith
  have e: "- 1022 \<le> e" unfolding e_def using assms by (rule floor_log2_ge)
  have le: "pow2 e \<le> \<bar>q\<bar>" unfolding e_def using q0 by (rule pow2_floor_log2_le_pos)
  have upos: "0 < u" unfolding u_def by (rule pow2_pos)
  have uq: "u \<le> \<bar>q\<bar> / 2 ^ 52"
    unfolding u_def pow2_diff using le by (simp add: divide_right_mono)
  have "fl q = of_int (round_half_even (q / u)) * u"
    using q0 e by (simp add: fl_def Let_def u_def e_def max_def)
  then have "fl q - q = (of_int (round_half_even (q / u)) - q / u) * u"
    using upos by (simp add: field_simps)
  then have "\<bar>fl q - q\<bar> = \<bar>of_int (round_half_even (q / u)) - q / u\<bar> * u"
    using upos by (simp add: abs_mult)
  also have "\<dots> \<le> (1 / 2) * u"
    using upos round_half_even_close [of "q / u"] by (intro mult_right_mono) simp_all
  also have "\<dots> \<le> (1 / 2) * (\<bar>q\<bar> / 2 ^ 52)" using uq by simp
  also have "\<dots> = \<bar>q\<bar> / 2 ^ 53" by simp
  finally show ?thesis .
qed

lemma fl_bounds:
  assumes "pow2 (- 1022) \<le> x"
  shows "x * (1 - eps) \<le> fl x" and "fl x \<le> x * (1 + eps)"
proof -
  have x0: "0 < x" using assms pow2_pos [of "- 1022"] by linarith
  then have "\<bar>fl x - x\<bar> \<le> x / 2 ^ 53" using fl_rel [of x] assms by simp
  then have "fl x - x \<le> x / 2 ^ 53" "x - fl x \<le> x / 2 ^ 53"
    by linarith+
  then have "fl x - x \<le> x * eps" "x - fl x \<le> x * eps"
    by (simp_all add: eps_def)
  then show "x * (1 - eps) \<le> fl x" and "fl x \<le> x * (1 + eps)"
    by (simp_all add: algebra_simps)
qed

lemma pow2_le_one: "pow2 (- 1022) \<le> 1"
  using pow2_mono [of "- 1022" 0] by (simp add: pow2_def)

lemma eps_less: "0 < eps" "eps < 1"
  by (simp_all add: eps_def)

lemma scaled_div:
  fixes X Y u v a b c d :: rat
  assumes "0 < X" "0 < Y" "0 < a" "0 < c"
    and u: "X * a \<le> u" "u \<le> X * b" and v: "Y * c \<le> v" "v \<le> Y * d"
  shows "(X / Y) * (a / d) \<le> u / v" and "u / v \<le> (X / Y) * (b / c)"
proof -
  have xa: "0 < X * a" and yc: "0 < Y * c" using assms(1-4) by simp_all
  have v0: "0 < v" using yc v(1) by linarith
  have u0: "0 \<le> u" using xa u(1) by linarith
  have "(X * a) / (Y * d) \<le> u / v"
  proof (rule frac_le)
    show "0 \<le> u" by (rule u0)
    show "X * a \<le> u" by (rule u(1))
    show "0 < v" by (rule v0)
    show "v \<le> Y * d" by (rule v(2))
  qed
  then show "(X / Y) * (a / d) \<le> u / v" by simp
  have "u / v \<le> (X * b) / (Y * c)"
  proof (rule frac_le)
    show "0 \<le> X * b" using u0 u(2) by linarith
    show "u \<le> X * b" by (rule u(2))
    show "0 < Y * c" by (rule yc)
    show "Y * c \<le> v" by (rule v(1))
  qed
  then show "u / v \<le> (X / Y) * (b / c)" by simp
qed

lemma scaled_fl:
  fixes X u a b :: rat
  assumes "0 < X" "0 < a" and u: "X * a \<le> u" "u \<le> X * b" and r: "pow2 (- 1022) \<le> u"
  shows "X * (a * (1 - eps)) \<le> fl u" and "fl u \<le> X * (b * (1 + eps))"
proof -
  note f = fl_bounds [OF r]
  have "X * a * (1 - eps) \<le> u * (1 - eps)"
    using u(1) eps_less by (intro mult_right_mono) simp_all
  then show "X * (a * (1 - eps)) \<le> fl u" using f(1) by (simp add: mult.assoc)
  have "u * (1 + eps) \<le> X * b * (1 + eps)"
    using u(2) eps_less by (intro mult_right_mono) simp_all
  then show "fl u \<le> X * (b * (1 + eps))" using f(2) by (simp add: mult.assoc)
qed

lemma fl_of_int_bounds:
  assumes "1 \<le> n"
  shows "of_int n * (1 - eps) \<le> fl (of_int n)" and "fl (of_int n) \<le> of_int n * (1 + eps)"
proof -
  have "(1::rat) \<le> of_int n" using assms by simp
  then have "pow2 (- 1022) \<le> of_int n" using pow2_le_one by linarith
  then show "of_int n * (1 - eps) \<le> fl (of_int n)" and "fl (of_int n) \<le> of_int n * (1 + eps)"
    by (rule fl_bounds)+
qed

lemma to_float_in_range:
  "0 \<le> fl x \<Longrightarrow> fl x < 2 ^ 1024 \<Longrightarrow> to_float x = Finite (fl x)"
  by (simp add: to_float_def Let_def)

lemma eps_consts:
  "0 < 1 - eps" "0 < (1 - eps) / (1 + eps)" "0 < (1 - eps) / (1 + eps) * (1 - eps)"
  "pow2 (- 1022) \<le> (1 / 2 ^ 500) * ((1 - eps) / (1 + eps))"
  "pow2 (- 1022) \<le> (1 / 2 ^ 500 / 2 ^ 500) * ((1 - eps) / (1 + eps) * (1 - eps) / (1 + eps))"
  "2 ^ 500 * ((1 + eps) / (1 - eps) * (1 + eps)) < (2 ^ 1024 :: rat)"
  "2 ^ 500 * ((1 + eps) / (1 - eps) * (1 + eps) / (1 - eps) * (1 + eps)) < (2 ^ 1024 :: rat)"
  "1 - 1 / 2 ^ 50 \<le> (1 - eps) / (1 + eps) * (1 - eps) / (1 + eps) * (1 - eps)"
  "(1 + eps) / (1 - eps) * (1 + eps) / (1 - eps) * (1 + eps) \<le> 1 + 1 / 2 ^ 50"
  by (simp_all add: eps_def pow2_def)

lemma ratio_bounds:
  fixes a b :: int
  assumes "1 \<le> a" "a < 2 ^ 500" "1 \<le> b" "b < 2 ^ 500"
  shows "1 / 2 ^ 500 \<le> (of_int a :: rat) / of_int b" and "(of_int a :: rat) / of_int b \<le> 2 ^ 500"
proof -
  have a: "(1::rat) \<le> of_int a" "(of_int a :: rat) \<le> 2 ^ 500"
    using assms(1,2) by (simp_all add: of_int_le_numeral_power_cancel_iff less_imp_le)
  have b: "(1::rat) \<le> of_int b" "(of_int b :: rat) \<le> 2 ^ 500"
    using assms(3,4) by (simp_all add: of_int_le_numeral_power_cancel_iff less_imp_le)
  have "(1::rat) / 2 ^ 500 \<le> of_int a / of_int b"
  proof (rule frac_le)
    show "(0::rat) \<le> of_int a" using a(1) by linarith
    show "(1::rat) \<le> of_int a" by (rule a(1))
    show "(0::rat) < of_int b" using b(1) by linarith
    show "(of_int b :: rat) \<le> 2 ^ 500" by (rule b(2))
  qed
  then show "1 / 2 ^ 500 \<le> (of_int a :: rat) / of_int b" .
  have "(of_int a :: rat) / of_int b \<le> 2 ^ 500 / 1"
  proof (rule frac_le)
    show "(0::rat) \<le> 2 ^ 500" by simp
    show "(of_int a :: rat) \<le> 2 ^ 500" by (rule a(2))
    show "(0::rat) < 1" by simp
    show "(1::rat) \<le> of_int b" by (rule b(1))
  qed
  then show "(of_int a :: rat) / of_int b \<le> 2 ^ 500" by simp
qed

lemma abs_float_div_value:
  assumes T: "1 \<le> T" "T < 2 ^ 500" and n1: "1 \<le> n1" "n1 < 2 ^ 500"
    and n2: "1 \<le> n2" "n2 < 2 ^ 500"
  defines "r \<equiv> fl (fl (fl (of_int T) / fl (of_int n1)) / fl (of_int n2))"
  shows "abs_float_div T n1 n2 = Inr (Finite r)"
    and "of_int T / of_int n1 / of_int n2 * (1 - 1 / 2 ^ 50) \<le> r"
    and "r \<le> of_int T / of_int n1 / of_int n2 * (1 + 1 / 2 ^ 50)"
proof -
  define t where "t = fl (of_int T)"
  define d1 where "d1 = fl (of_int n1)"
  define d2 where "d2 = fl (of_int n2)"
  define y1 where "y1 = t / d1"
  define q1 where "q1 = fl y1"
  define y2 where "y2 = q1 / d2"
  define X1 :: rat where "X1 = of_int T / of_int n1"
  define X2 :: rat where "X2 = X1 / of_int n2"
  have r: "r = fl y2" by (simp add: r_def y2_def q1_def y1_def t_def d1_def d2_def)
  have Tpos: "(0::rat) < of_int T" and n1pos: "(0::rat) < of_int n1" and n2pos: "(0::rat) < of_int n2"
    using T(1) n1(1) n2(1) by simp_all
  note tb = fl_of_int_bounds [OF T(1), folded t_def]
  note d1b = fl_of_int_bounds [OF n1(1), folded d1_def]
  note d2b = fl_of_int_bounds [OF n2(1), folded d2_def]
  have d1pos: "0 < d1" using d1b(1) n1pos eps_consts(1) by (meson less_le_trans mult_pos_pos)
  have d2pos: "0 < d2" using d2b(1) n2pos eps_consts(1) by (meson less_le_trans mult_pos_pos)
  \<comment> \<open>the first quotient\<close>
  note y1b = scaled_div [OF Tpos n1pos eps_consts(1) eps_consts(1) tb d1b, folded y1_def X1_def]
  note X1b = ratio_bounds [OF T n1, folded X1_def]
  have X1pos: "0 < X1" using X1b(1) by (simp add: less_le_trans [of 0 "1 / 2 ^ 500"])
  have "(1 / 2 ^ 500) * ((1 - eps) / (1 + eps)) \<le> X1 * ((1 - eps) / (1 + eps))"
    using X1b(1) eps_consts(2) by (intro mult_right_mono) simp_all
  then have y1r: "pow2 (- 1022) \<le> y1" using eps_consts(4) y1b(1) by linarith
  note q1b = scaled_fl [OF X1pos eps_consts(2) y1b y1r, folded q1_def]
  have q1pos: "0 \<le> q1"
    using q1b(1) X1pos eps_consts(3) by (meson less_imp_le order_trans mult_pos_pos)
  have "X1 * ((1 + eps) / (1 - eps) * (1 + eps)) \<le> 2 ^ 500 * ((1 + eps) / (1 - eps) * (1 + eps))"
    using X1b(2) eps_less eps_consts(1) by (intro mult_right_mono) simp_all
  then have q1lt: "q1 < 2 ^ 1024" using q1b(2) eps_consts(6) by linarith
  have f1: "to_float y1 = Finite q1"
    unfolding q1_def using q1pos q1lt by (intro to_float_in_range) (simp_all add: q1_def)
  \<comment> \<open>the second quotient\<close>
  note y2b = scaled_div [OF X1pos n2pos eps_consts(3) eps_consts(1) q1b d2b, folded y2_def X2_def]
  have X2lo: "1 / 2 ^ 500 / 2 ^ 500 \<le> X2"
  proof -
    have "(1 / 2 ^ 500) / 2 ^ 500 \<le> X1 / of_int n2"
    proof (rule frac_le)
      show "0 \<le> X1" using X1pos by simp
      show "1 / 2 ^ 500 \<le> X1" by (rule X1b(1))
      show "(0::rat) < of_int n2" by (rule n2pos)
      show "(of_int n2 :: rat) \<le> 2 ^ 500"
        using n2(2) by (simp add: of_int_le_numeral_power_cancel_iff less_imp_le)
    qed
    then show ?thesis by (simp add: X2_def)
  qed
  have X2hi: "X2 \<le> 2 ^ 500"
  proof -
    have "X1 / of_int n2 \<le> 2 ^ 500 / 1"
    proof (rule frac_le)
      show "(0::rat) \<le> 2 ^ 500" by simp
      show "X1 \<le> 2 ^ 500" by (rule X1b(2))
      show "(0::rat) < 1" by simp
      show "(1::rat) \<le> of_int n2" using n2(1) by simp
    qed
    then show ?thesis by (simp add: X2_def)
  qed
  have X2pos: "0 < X2" using X2lo by (simp add: less_le_trans [of 0 "1 / 2 ^ 500 / 2 ^ 500"])
  have a2: "0 < (1 - eps) / (1 + eps) * (1 - eps) / (1 + eps)"
    using eps_consts(3) eps_less by simp
  have "(1 / 2 ^ 500 / 2 ^ 500) * ((1 - eps) / (1 + eps) * (1 - eps) / (1 + eps))
        \<le> X2 * ((1 - eps) / (1 + eps) * (1 - eps) / (1 + eps))"
    using X2lo a2 by (intro mult_right_mono) simp_all
  then have y2r: "pow2 (- 1022) \<le> y2" using eps_consts(5) y2b(1) by linarith
  note rb = scaled_fl [OF X2pos a2 y2b y2r, folded r]
  have lo: "X2 * (1 - 1 / 2 ^ 50) \<le> r"
  proof -
    have "X2 * (1 - 1 / 2 ^ 50) \<le> X2 * ((1 - eps) / (1 + eps) * (1 - eps) / (1 + eps) * (1 - eps))"
      using X2pos eps_consts(8) by (intro mult_left_mono) simp_all
    then show ?thesis using rb(1) by linarith
  qed
  have hi: "r \<le> X2 * (1 + 1 / 2 ^ 50)"
  proof -
    have "X2 * ((1 + eps) / (1 - eps) * (1 + eps) / (1 - eps) * (1 + eps)) \<le> X2 * (1 + 1 / 2 ^ 50)"
      using X2pos eps_consts(9) by (intro mult_left_mono) simp_all
    then show ?thesis using rb(2) by linarith
  qed
  have rpos: "0 \<le> r"
  proof -
    have "0 \<le> X2 * (1 - 1 / 2 ^ 50)" using X2pos by simp
    then show ?thesis using lo by linarith
  qed
  have "X2 * ((1 + eps) / (1 - eps) * (1 + eps) / (1 - eps) * (1 + eps))
        \<le> 2 ^ 500 * ((1 + eps) / (1 - eps) * (1 + eps) / (1 - eps) * (1 + eps))"
    using X2hi eps_less eps_consts(1) by (intro mult_right_mono) simp_all
  then have rlt: "r < 2 ^ 1024" using rb(2) eps_consts(7) by linarith
  have f2: "to_float y2 = Finite r"
    unfolding r using rpos rlt by (intro to_float_in_range) (simp_all add: r)
  \<comment> \<open>the evaluation of line 48\<close>
  have cT: "float_of_int T = Inr (Finite t)"
    unfolding t_def using T by (intro float_of_int_in_range) simp
  have c1: "float_of_int n1 = Inr (Finite d1)"
    unfolding d1_def using n1 by (intro float_of_int_in_range) simp
  have c2: "float_of_int n2 = Inr (Finite d2)"
    unfolding d2_def using n2 by (intro float_of_int_in_range) simp
  have s1: "float_div_int (Finite t) n1 = Inr (Finite q1)"
    using d1pos by (simp add: float_div_int_def c1 f1 [unfolded y1_def])
  have s2: "float_div_int (Finite q1) n2 = Inr (Finite r)"
    using d2pos by (simp add: float_div_int_def c2 f2 [unfolded y2_def])
  show "abs_float_div T n1 n2 = Inr (Finite r)"
    using rpos by (simp add: abs_float_div_def cT s1 s2)
  show "of_int T / of_int n1 / of_int n2 * (1 - 1 / 2 ^ 50) \<le> r"
    using lo by (simp add: X2_def X1_def)
  show "r \<le> of_int T / of_int n1 / of_int n2 * (1 + 1 / 2 ^ 50)"
    using hi by (simp add: X2_def X1_def)
qed

lemma float_of_int_overflow:
  assumes "2 ^ 1025 \<le> \<bar>n\<bar>"
  shows "float_of_int n = Inl OverflowError"
proof -
  have big: "(2::rat) ^ 1025 \<le> \<bar>of_int n\<bar>"
  proof -
    have "(of_int (2 ^ 1025) :: rat) \<le> of_int \<bar>n\<bar>" using assms by (simp only: of_int_le_iff)
    then show ?thesis by simp
  qed
  then have "1 \<le> \<bar>of_int n :: rat\<bar>" by (rule order_trans [rotated]) simp
  from fl_close [OF this] have "\<bar>of_int n :: rat\<bar> / 2 \<le> \<bar>fl (of_int n)\<bar>" by linarith
  then have "(2::rat) ^ 1024 \<le> \<bar>fl (of_int n)\<bar>" using big by simp
  then show ?thesis by (simp add: float_of_int_def Let_def)
qed

lemma float_div_int_overflow:
  "2 ^ 1025 \<le> \<bar>n\<bar> \<Longrightarrow> float_div_int x n = Inl OverflowError"
  by (simp add: float_div_int_def float_of_int_overflow)

lemma abs_float_div_overflow:
  assumes "n1 \<noteq> 0" "n2 \<noteq> 0"
    and "2 ^ 1025 \<le> \<bar>t\<bar> \<or> 2 ^ 1025 \<le> \<bar>n1\<bar> \<or> 2 ^ 1025 \<le> \<bar>n2\<bar>"
  shows "abs_float_div t n1 n2 = Inl OverflowError"
proof (cases "float_of_int t")
  case (Inl e)
  then show ?thesis using float_of_int_cases [of t] by (simp add: abs_float_div_def)
next
  case ft: (Inr x)
  then have tn: "\<not> 2 ^ 1025 \<le> \<bar>t\<bar>" using float_of_int_overflow [of t] by auto
  show ?thesis
  proof (cases "float_div_int x n1")
    case (Inl e)
    then show ?thesis
      using float_div_int_cases [OF assms(1), of x] ft by (simp add: abs_float_div_def)
  next
    case fq: (Inr y)
    then have "\<not> 2 ^ 1025 \<le> \<bar>n1\<bar>" using float_div_int_overflow [of n1 x] by auto
    then have "2 ^ 1025 \<le> \<bar>n2\<bar>" using assms(3) tn by simp
    then show ?thesis
      using ft fq by (simp add: abs_float_div_def float_div_int_overflow)
  qed
qed

lemma abs_float_div_zero_value:
  assumes "1 \<le> n1" "n1 < 2 ^ 500" "1 \<le> n2" "n2 < 2 ^ 500"
  shows "abs_float_div 0 n1 n2 = Inr (Finite 0)"
    and "fl (fl (fl (of_int 0) / fl (of_int n1)) / fl (of_int n2)) = 0"
proof -
  show "abs_float_div 0 n1 n2 = Inr (Finite 0)"
    using assms by (intro abs_float_div_zero) simp_all
  show "fl (fl (fl (of_int 0) / fl (of_int n1)) / fl (of_int n2)) = 0"
    by (simp add: fl_def)
qed

lemma total_spec_nonneg: "0 \<le> total_spec h1 h2"
  by (auto simp: total_spec_def intro!: sum_list_nonneg)

subsection \<open>Claims\<close>

text \<open>
  C1, as stated, fails: the value returned is a float. For \<open>[2^600, 0]\<close> and \<open>[0, 2^600]\<close>
  the total \<open>2^1200\<close> does not convert to a float and the call raises OverflowError; for
  \<open>[1, 2]\<close> and \<open>[2, 1]\<close> the total is 3 and the call returns the float nearest to one
  third, which is not \<open>3 / 3 / 3\<close>.
\<close>

theorem HistogramDistance_inexact_or_overflow:
  "HistogramDistance [2 ^ 600, 0] [0, 2 ^ 600] = Inl OverflowError
   \<and> HistogramDistance [1, 2] [2, 1] = Inr (Finite (6004799503160661 / 18014398509481984))
   \<and> (6004799503160661 / 18014398509481984 :: rat) \<noteq> 3 / 3 / 3"
proof -
  have "HistogramDistance [2 ^ 600, 0] [0, 2 ^ 600] = abs_float_div (2 ^ 600 * 2 ^ 600) (2 ^ 600) (2 ^ 600)"
    by (simp add: HistogramDistance_def)
  also have "\<dots> = Inl OverflowError"
    by (rule abs_float_div_overflow) simp_all
  finally have a: "HistogramDistance [2 ^ 600, 0] [0, 2 ^ 600] = Inl OverflowError" .
  have f: "fl 3 = 3" "fl 1 = 1" "fl (1 / 3) = 6004799503160661 / 18014398509481984"
    by code_simp+
  have "float_of_int 3 = Inr (Finite 3)" by (simp add: float_of_int_def f)
  then have "abs_float_div 3 3 3 = Inr (Finite (6004799503160661 / 18014398509481984))"
    by (simp add: abs_float_div_def float_div_int_def to_float_def Let_def f)
  then have b: "HistogramDistance [1, 2] [2, 1] = Inr (Finite (6004799503160661 / 18014398509481984))"
    by (simp add: HistogramDistance_def)
  show ?thesis using a b by simp
qed

text \<open>
  C1, amended. For bucket sequences of equal length with positive sums \<open>n1\<close> and \<open>n2\<close>,
  HistogramDistance walks the buckets in index order: after the first \<open>k\<close> buckets the
  remainder is the sum of \<open>hist1[j]*n2 - hist2[j]*n1\<close> over \<open>j < k\<close> and the total is the sum
  of the absolute remainders so far. When the final total and the two sums are below
  \<open>2^500\<close>, the call returns the float obtained from \<open>total\<close>, \<open>n1\<close> and \<open>n2\<close> by rounding
  them and the two quotients to the nearest float, which is within a relative error of
  \<open>2^-50\<close> of \<open>total / n1 / n2\<close>. When the total or a sum is \<open>2^1025\<close> or more, the call
  raises OverflowError.
\<close>

theorem HistogramDistance_value:
  assumes "length hist1 = length hist2" and "0 < sum_list hist1" and "0 < sum_list hist2"
  shows "(\<forall>k\<le>length hist1.
            emd_loop (sum_list hist1) (sum_list hist2) (take k (zip hist1 hist2)) 0 0 =
              ((\<Sum>i\<leftarrow>[0..<k]. \<bar>remainder_after hist1 hist2 i\<bar>),
               (if k = 0 then 0 else remainder_after hist1 hist2 (k - 1))))
    \<and> (total_spec hist1 hist2 < 2 ^ 500 \<and> sum_list hist1 < 2 ^ 500 \<and> sum_list hist2 < 2 ^ 500
        \<longrightarrow> (\<exists>r. HistogramDistance hist1 hist2 = Inr (Finite r)
             \<and> r = fl (fl (fl (of_int (total_spec hist1 hist2)) / fl (of_int (sum_list hist1)))
                       / fl (of_int (sum_list hist2)))
             \<and> of_int (total_spec hist1 hist2) / of_int (sum_list hist1) / of_int (sum_list hist2)
                 * (1 - 1 / 2 ^ 50) \<le> r
             \<and> r \<le> of_int (total_spec hist1 hist2) / of_int (sum_list hist1)
                     / of_int (sum_list hist2) * (1 + 1 / 2 ^ 50)))
    \<and> (2 ^ 1025 \<le> total_spec hist1 hist2 \<or> 2 ^ 1025 \<le> sum_list hist1
          \<or> 2 ^ 1025 \<le> sum_list hist2
        \<longrightarrow> HistogramDistance hist1 hist2 = Inl OverflowError)"
proof (intro conjI allI impI)
  fix k assume "k \<le> length hist1"
  then show "emd_loop (sum_list hist1) (sum_list hist2) (take k (zip hist1 hist2)) 0 0 =
              ((\<Sum>i\<leftarrow>[0..<k]. \<bar>remainder_after hist1 hist2 i\<bar>),
               (if k = 0 then 0 else remainder_after hist1 hist2 (k - 1)))"
    using assms(1) by (intro emd_loop_prefix) simp_all
next
  let ?T = "total_spec hist1 hist2" and ?n1 = "sum_list hist1" and ?n2 = "sum_list hist2"
  let ?r = "fl (fl (fl (of_int ?T) / fl (of_int ?n1)) / fl (of_int ?n2))"
  let ?x = "of_int ?T / of_int ?n1 / of_int ?n2 :: rat"
  have eq: "HistogramDistance hist1 hist2 = abs_float_div ?T ?n1 ?n2"
    using assms by (intro HistogramDistance_eq) simp_all
  assume b: "?T < 2 ^ 500 \<and> ?n1 < 2 ^ 500 \<and> ?n2 < 2 ^ 500"
  have n: "1 \<le> ?n1" "1 \<le> ?n2" using assms by simp_all
  have "HistogramDistance hist1 hist2 = Inr (Finite ?r)
      \<and> ?x * (1 - 1 / 2 ^ 50) \<le> ?r \<and> ?r \<le> ?x * (1 + 1 / 2 ^ 50)"
  proof (cases "?T = 0")
    case True
    have "abs_float_div 0 ?n1 ?n2 = Inr (Finite 0)"
      and "fl (fl (fl (of_int 0) / fl (of_int ?n1)) / fl (of_int ?n2)) = 0"
      using n b by (intro abs_float_div_zero_value; simp)+
    then show ?thesis unfolding eq True by simp
  next
    case False
    then have T: "1 \<le> ?T" using total_spec_nonneg [of hist1 hist2] by linarith
    show ?thesis
      unfolding eq
      using abs_float_div_value [of ?T ?n1 ?n2] T n b by simp
  qed
  then show "\<exists>r. HistogramDistance hist1 hist2 = Inr (Finite r) \<and> r = ?r
      \<and> ?x * (1 - 1 / 2 ^ 50) \<le> r \<and> r \<le> ?x * (1 + 1 / 2 ^ 50)"
    by blast
next
  let ?T = "total_spec hist1 hist2" and ?n1 = "sum_list hist1" and ?n2 = "sum_list hist2"
  have eq: "HistogramDistance hist1 hist2 = abs_float_div ?T ?n1 ?n2"
    using assms by (intro HistogramDistance_eq) simp_all
  assume "2 ^ 1025 \<le> ?T \<or> 2 ^ 1025 \<le> ?n1 \<or> 2 ^ 1025 \<le> ?n2"
  then have "2 ^ 1025 \<le> \<bar>?T\<bar> \<or> 2 ^ 1025 \<le> \<bar>?n1\<bar> \<or> 2 ^ 1025 \<le> \<bar>?n2\<bar>"
    by linarith
  then show "HistogramDistance hist1 hist2 = Inl OverflowError"
    unfolding eq using assms by (intro abs_float_div_overflow) simp_all
qed

theorem HistogramDistance_value_witness:
  "HistogramDistance [0, 0, 3] [0, 2, 3] = Inr (Finite (3602879701896397 / 9007199254740992))
   \<and> 6 / 3 / 5 * (1 - 1 / 2 ^ 50) \<le> (3602879701896397 / 9007199254740992 :: rat)
   \<and> (3602879701896397 / 9007199254740992 :: rat) \<le> 6 / 3 / 5 * (1 + 1 / 2 ^ 50)
   \<and> emd_loop 3 5 [(0, 0), (0, 2)] 0 0 = (6, - 6)"
proof -
  have h: "length [0, 0, 3::int] = length [0, 2, 3::int]"
    "0 < sum_list [0, 0, 3::int]" "0 < sum_list [0, 2, 3::int]"
    by simp_all
  note w = HistogramDistance_value [OF h]
  have t: "total_spec [0, 0, 3] [0, 2, 3] = 6"
    by (simp add: total_spec_def remainder_after_def)
  have s: "sum_list [0, 0, 3::int] = 3" "sum_list [0, 2, 3::int] = 5" by simp_all
  have v: "fl (fl (fl (of_int 6) / fl (of_int 3)) / fl (of_int 5))
           = 3602879701896397 / 9007199254740992"
    by (simp add: fl_examples)
  from w have "\<exists>r. HistogramDistance [0, 0, 3] [0, 2, 3] = Inr (Finite r)
             \<and> r = fl (fl (fl (of_int 6) / fl (of_int 3)) / fl (of_int 5))
             \<and> of_int 6 / of_int 3 / of_int 5 * (1 - 1 / 2 ^ 50) \<le> r
             \<and> r \<le> of_int 6 / of_int 3 / of_int 5 * (1 + 1 / 2 ^ 50)"
    unfolding t s by simp
  then have a: "HistogramDistance [0, 0, 3] [0, 2, 3] = Inr (Finite (3602879701896397 / 9007199254740992))
   \<and> 6 / 3 / 5 * (1 - 1 / 2 ^ 50) \<le> (3602879701896397 / 9007199254740992 :: rat)
   \<and> (3602879701896397 / 9007199254740992 :: rat) \<le> 6 / 3 / 5 * (1 + 1 / 2 ^ 50)"
    unfolding v by auto
  from w have "emd_loop (sum_list [0, 0, 3]) (sum_list [0, 2, 3]) (take 2 (zip [0, 0, 3] [0, 2, 3])) 0 0 =
              ((\<Sum>i\<leftarrow>[0..<2]. \<bar>remainder_after [0, 0, 3] [0, 2, 3] i\<bar>),
               (if (2::nat) = 0 then 0 else remainder_after [0, 0, 3] [0, 2, 3] (2 - 1)))"
    by (elim conjE allE [of _ 2]) simp
  then have b: "emd_loop 3 5 [(0, 0), (0, 2)] 0 0 = (6, - 6)"
    by (simp add: remainder_after_def numeral_2_eq_2)
  from a b show ?thesis by blast
qed

text \<open>
  C2. For bucket sequences of equal length with positive sums, the remainder after the
  last bucket is \<open>sum(hist1)*n2 - sum(hist2)*n1\<close>, which is 0, and the assertion of line 45
  does not fail.
\<close>

theorem HistogramDistance_remainder_zero:
  assumes "length hist1 = length hist2" and "0 < sum_list hist1" and "0 < sum_list hist2"
  shows "snd (emd_loop (sum_list hist1) (sum_list hist2) (zip hist1 hist2) 0 0)
           = sum_list hist1 * sum_list hist2 - sum_list hist2 * sum_list hist1
    \<and> snd (emd_loop (sum_list hist1) (sum_list hist2) (zip hist1 hist2) 0 0) = 0
    \<and> HistogramDistance hist1 hist2 \<noteq> Inl AssertionError"
proof -
  have "snd (emd_loop (sum_list hist1) (sum_list hist2) (zip hist1 hist2) 0 0)
           = sum_list hist1 * sum_list hist2 - sum_list hist2 * sum_list hist1"
    using emd_loop_remainder [OF assms(1), of "sum_list hist1" "sum_list hist2" 0 0] by simp
  moreover have "HistogramDistance hist1 hist2 \<noteq> Inl AssertionError"
    using HistogramDistance_errors [of hist1 hist2 AssertionError] by auto
  ultimately show ?thesis by simp
qed

theorem HistogramDistance_remainder_zero_witness:
  "snd (emd_loop 3 5 [(0, 0), (0, 2), (3, 3)] 0 0) = 0
   \<and> HistogramDistance [0, 0, 3] [0, 2, 3] \<noteq> Inl AssertionError"
  using HistogramDistance_remainder_zero [of "[0, 0, 3]" "[0, 2, 3]"] by simp

text \<open>
  C3, as stated (symmetry of the returned floats), fails: the two argument orders divide
  the same total by \<open>n1\<close> and \<open>n2\<close> in different orders, and the two roundings differ for
  \<open>[0, 0, 3]\<close> and \<open>[0, 2, 3]\<close>: 0.4 one way, 0.39999999999999997 the other.
\<close>

theorem HistogramDistance_asymmetric:
  "HistogramDistance [0, 0, 3] [0, 2, 3] = Inr (Finite (3602879701896397 / 9007199254740992))
   \<and> HistogramDistance [0, 2, 3] [0, 0, 3] = Inr (Finite (7205759403792793 / 18014398509481984))
   \<and> HistogramDistance [0, 0, 3] [0, 2, 3] \<noteq> HistogramDistance [0, 2, 3] [0, 0, 3]"
  by (simp add: HistogramDistance_def abs_float_div_examples)

text \<open>
  C3, amended. \<open>HistogramDistance(h, h)\<close> is 0 for every \<open>h\<close> with a positive sum below
  \<open>2^1023\<close>. For sequences of equal length with positive sums the accumulated total is the
  same for both argument orders, \<open>HistogramDistance(h1, h2)\<close> is \<open>abs(float(total)/n1/n2)\<close>
  and \<open>HistogramDistance(h2, h1)\<close> is \<open>abs(float(total)/n2/n1)\<close>; the two are equal when
  \<open>n1 = n2\<close>.
\<close>

theorem HistogramDistance_symmetry:
  "(0 < sum_list h \<and> sum_list h < 2 ^ 1023 \<longrightarrow> HistogramDistance h h = Inr (Finite 0))
   \<and> (length h1 = length h2 \<and> 0 < sum_list h1 \<and> 0 < sum_list h2 \<longrightarrow>
        total_spec h2 h1 = total_spec h1 h2
      \<and> HistogramDistance h1 h2 = abs_float_div (total_spec h1 h2) (sum_list h1) (sum_list h2)
      \<and> HistogramDistance h2 h1 = abs_float_div (total_spec h1 h2) (sum_list h2) (sum_list h1)
      \<and> (sum_list h1 = sum_list h2 \<longrightarrow> HistogramDistance h2 h1 = HistogramDistance h1 h2))"
proof (intro conjI impI)
  assume "0 < sum_list h \<and> sum_list h < 2 ^ 1023"
  then show "HistogramDistance h h = Inr (Finite 0)"
    using HistogramDistance_eq [of h h] abs_float_div_zero [of "sum_list h" "sum_list h"]
    by (simp add: total_spec_self)
next
  assume a: "length h1 = length h2 \<and> 0 < sum_list h1 \<and> 0 < sum_list h2"
  then show sw: "total_spec h2 h1 = total_spec h1 h2" by (simp add: total_spec_swap)
  from a show e1: "HistogramDistance h1 h2 = abs_float_div (total_spec h1 h2) (sum_list h1) (sum_list h2)"
    by (intro HistogramDistance_eq) simp_all
  from a have "HistogramDistance h2 h1 = abs_float_div (total_spec h2 h1) (sum_list h2) (sum_list h1)"
    by (intro HistogramDistance_eq) simp_all
  then show e2: "HistogramDistance h2 h1 = abs_float_div (total_spec h1 h2) (sum_list h2) (sum_list h1)"
    by (simp only: sw)
  assume "sum_list h1 = sum_list h2"
  then show "HistogramDistance h2 h1 = HistogramDistance h1 h2"
    using e1 e2 by simp
qed

theorem HistogramDistance_symmetry_witness:
  "HistogramDistance [1, 2] [1, 2] = Inr (Finite 0)
   \<and> total_spec [0, 2, 3] [0, 0, 3] = total_spec [0, 0, 3] [0, 2, 3]
   \<and> HistogramDistance [2, 2] [1, 3] = HistogramDistance [1, 3] [2, 2]"
  using HistogramDistance_symmetry [of "[1, 2]" "[1, 3]" "[2, 2]"]
    HistogramDistance_symmetry [of "[1, 2]" "[0, 0, 3]" "[0, 2, 3]"]
  by simp

text \<open>
  C4. \<open>c.IsEqual(e, t)\<close> is true exactly when each of the four channels of \<open>c\<close> and \<open>e\<close>
  differs by at most \<open>t\<close>, every channel on its own; \<open>RgbaColor(10,10,10)\<close> equals
  \<open>RgbaColor(12,12,12)\<close> within tolerance 2 and not within tolerance 1.
\<close>

theorem RgbaColor_IsEqual_channelwise:
  "(RgbaColor_IsEqual c e t \<longleftrightarrow>
      \<bar>chan_r c - chan_r e\<bar> \<le> t \<and> \<bar>chan_g c - chan_g e\<bar> \<le> t \<and>
      \<bar>chan_b c - chan_b e\<bar> \<le> t \<and> \<bar>chan_a c - chan_a e\<bar> \<le> t)
   \<and> RgbaColor_IsEqual (rgb 10 10 10) (rgb 12 12 12) 2
   \<and> \<not> RgbaColor_IsEqual (rgb 10 10 10) (rgb 12 12 12) 1"
  by (simp add: RgbaColor_IsEqual_def rgb_def rgba_def)



text \<open>
  C6. \<open>Crop(left, top, width, height)\<close> raises the invalid-dimensions error exactly when
  \<open>left < 0\<close>, \<open>top < 0\<close>, \<open>left + width\<close> exceeds the current logical width or
  \<open>top + height\<close> exceeds the current logical height; when it raises, no object of the
  store is changed, so the crop box and the logical size are what they were; it raises
  nothing else.
\<close>

theorem Crop_error_iff:
  "(fst (Crop st self left top' width height) = Inl ValueError \<longleftrightarrow>
      left < 0 \<or> top' < 0 \<or> left + width > Bitmap_width st self
      \<or> top' + height > Bitmap_height st self)
   \<and> (fst (Crop st self left top' width height) = Inl ValueError \<longrightarrow>
        snd (Crop st self left top' width height) = st)
   \<and> (fst (Crop st self left top' width height) \<noteq> Inl ValueError \<longrightarrow>
        fst (Crop st self left top' width height) = Inr self)"
  by (auto simp: Crop_def Bitmap_width_def Bitmap_height_def split: option.splits prod.splits)

theorem Crop_error_iff_witness:
  "fst (Crop example_heap 1 1 0 2 1) = Inl ValueError
   \<and> snd (Crop example_heap 1 1 0 2 1) = example_heap
   \<and> Bitmap_width example_heap 1 = 2"
  using Crop_error_iff [of example_heap 1 1 0 2 1]
  by (simp add: Bitmap_width_def Bitmap_height_def example_heap_def bitmap_b_def)

text \<open>
  C7. A valid \<open>Crop(left, top, width, height)\<close> on a bitmap whose active box is
  \<open>(cur_left, cur_top, cur_width, cur_height)\<close> (the whole image when none is pending)
  sets the pending box to \<open>(cur_left + left, cur_top + top, width, height)\<close>; afterwards the
  logical width and height are \<open>width\<close> and \<open>height\<close>, the call returns the reference of the
  object it was called on, and that object is the only one changed, in its crop box only.
\<close>

theorem Crop_composes:
  assumes "(case bm_crop_box (st self) of Some box \<Rightarrow> box
            | None \<Rightarrow> (0, 0, bm_width (st self), bm_height (st self)))
           = (cur_left, cur_top, cur_width, cur_height)"
    and "0 \<le> left" and "0 \<le> top'"
    and "left + width \<le> cur_width" and "top' + height \<le> cur_height"
  shows "\<exists>st'. Crop st self left top' width height = (Inr self, st')
      \<and> bm_crop_box (st' self) = Some (cur_left + left, cur_top + top', width, height)
      \<and> Bitmap_width st' self = width \<and> Bitmap_height st' self = height
      \<and> st' = st(self := (st self)\<lparr>bm_crop_box := bm_crop_box (st' self)\<rparr>)"
  using assms by (auto simp: Crop_def Bitmap_width_def Bitmap_height_def split: option.splits)

theorem Crop_composes_witness:
  "(\<exists>st'. Crop example_heap 1 1 0 1 2 = (Inr 1, st')
      \<and> bm_crop_box (st' 1) = Some (2, 0, 1, 2)
      \<and> Bitmap_width st' 1 = 1 \<and> Bitmap_height st' 1 = 2
      \<and> st' = example_heap(1 := (example_heap 1)\<lparr>bm_crop_box := bm_crop_box (st' 1)\<rparr>))"
  using Crop_composes [of example_heap 1 1 0 2 2 1 0 1 2]
  by (simp add: example_heap_def bitmap_b_def)



text \<open>
  C9. \<open>Bitmap.IsEqual\<close> returns false, leaving every object as it is (no pixel is read
  and the engine is not called), when the logical widths or heights differ. For two
  readable bitmaps of equal logical size and equal bpp, the call with tolerance 0 takes
  the comparison of the buffers, and that comparison and the scan of the pixels with
  \<open>RgbaColor.IsEqual\<close> at tolerance 0 return the same result.
\<close>

theorem Bitmap_IsEqual_paths:
  "(Bitmap_width st a \<noteq> Bitmap_width st b \<or> Bitmap_height st a \<noteq> Bitmap_height st b \<longrightarrow>
      Bitmap_IsEqual tools st a b tol = (Inr False, st))
   \<and> (readable tools (st a) \<and> readable tools (st b)
      \<and> Bitmap_width st a = Bitmap_width st b \<and> Bitmap_height st a = Bitmap_height st b
      \<and> Bitmap_bpp st a = Bitmap_bpp st b \<longrightarrow>
        Bitmap_IsEqual tools st a b 0 = IsEqual_fast tools st a b
      \<and> (\<exists>st1 st2. IsEqual_fast tools st a b
                      = (Inr (bm_pixels (view tools (st a)) = bm_pixels (view tools (st b))), st1)
          \<and> IsEqual_scan tools st a b 0
                      = (Inr (bm_pixels (view tools (st a)) = bm_pixels (view tools (st b))), st2))
      \<and> fst (IsEqual_fast tools st a b) = fst (IsEqual_scan tools st a b 0))"
proof (intro conjI impI)
  assume "Bitmap_width st a \<noteq> Bitmap_width st b \<or> Bitmap_height st a \<noteq> Bitmap_height st b"
  then show "Bitmap_IsEqual tools st a b tol = (Inr False, st)"
    by (simp add: Bitmap_IsEqual_def)
next
  assume a: "readable tools (st a) \<and> readable tools (st b)
      \<and> Bitmap_width st a = Bitmap_width st b \<and> Bitmap_height st a = Bitmap_height st b
      \<and> Bitmap_bpp st a = Bitmap_bpp st b"
  then show "Bitmap_IsEqual tools st a b 0 = IsEqual_fast tools st a b"
    by (simp add: Bitmap_IsEqual_def)
  let ?va = "view tools (st a)" and ?vb = "view tools (st b)"
  have sa: "sees tools st a ?va" and sb: "sees tools st b ?vb"
    using a by (simp_all add: sees_def)
  have w: "bm_width ?va = bm_width ?vb" and h: "bm_height ?va = bm_height ?vb"
    and bpp: "bm_bpp ?va = bm_bpp ?vb"
    using a sees_width [OF sa] sees_width [OF sb] sees_height [OF sa] sees_height [OF sb]
      sees_bpp [OF sa] sees_bpp [OF sb]
    by simp_all
  obtain st1 where f: "IsEqual_fast tools st a b = (Inr (bm_pixels ?va = bm_pixels ?vb), st1)"
    using IsEqual_fast_sees [OF sa sb] by blast
  obtain st2 where s: "IsEqual_scan tools st a b 0 =
            (Inr (list_all (\<lambda>y. list_all (\<lambda>x.
                    RgbaColor_IsEqual (pixel_color ?va x y) (pixel_color ?vb x y) 0)
                      (range_py (bm_width ?va))) (range_py (bm_height ?va))), st2)"
    using IsEqual_scan_sees [OF sa sb w h] by blast
  have s': "IsEqual_scan tools st a b 0 = (Inr (bm_pixels ?va = bm_pixels ?vb), st2)"
    using s buffers_equal_iff [OF sees_wf [OF sa] sees_wf [OF sb] bpp w h] by simp
  show "\<exists>st1 st2. IsEqual_fast tools st a b
                      = (Inr (bm_pixels (view tools (st a)) = bm_pixels (view tools (st b))), st1)
          \<and> IsEqual_scan tools st a b 0
                      = (Inr (bm_pixels (view tools (st a)) = bm_pixels (view tools (st b))), st2)"
    using f s' by blast
  show "fst (IsEqual_fast tools st a b) = fst (IsEqual_scan tools st a b 0)"
    using f s' by simp
qed

theorem Bitmap_IsEqual_paths_witness:
  "Bitmap_IsEqual crop_rows example_heap 0 1 0 = IsEqual_fast crop_rows example_heap 0 1
   \<and> fst (IsEqual_fast crop_rows example_heap 0 1) = Inr True
   \<and> fst (IsEqual_scan crop_rows example_heap 0 1 0) = Inr True
   \<and> fst (IsEqual_fast crop_rows example_heap 0 2) = Inr False
   \<and> fst (IsEqual_scan crop_rows example_heap 0 2 0) = Inr False
   \<and> Bitmap_IsEqual crop_rows (example_heap(2 := bitmap_b\<lparr>bm_crop_box := None\<rparr>)) 0 2 7
       = (Inr False, example_heap(2 := bitmap_b\<lparr>bm_crop_box := None\<rparr>))"
proof -
  have h1: "readable crop_rows (example_heap 0) \<and> readable crop_rows (example_heap 1)
      \<and> Bitmap_width example_heap 0 = Bitmap_width example_heap 1
      \<and> Bitmap_height example_heap 0 = Bitmap_height example_heap 1
      \<and> Bitmap_bpp example_heap 0 = Bitmap_bpp example_heap 1"
    unfolding example_sizes using example_readable by blast
  have h2: "readable crop_rows (example_heap 0) \<and> readable crop_rows (example_heap 2)
      \<and> Bitmap_width example_heap 0 = Bitmap_width example_heap 2
      \<and> Bitmap_height example_heap 0 = Bitmap_height example_heap 2
      \<and> Bitmap_bpp example_heap 0 = Bitmap_bpp example_heap 2"
    unfolding example_sizes using example_readable by blast
  note w1 = Bitmap_IsEqual_paths [of example_heap 0 1 crop_rows 0, THEN conjunct2, THEN mp, OF h1]
  note w2 = Bitmap_IsEqual_paths [of example_heap 0 2 crop_rows 0, THEN conjunct2, THEN mp, OF h2]
  note w3 = Bitmap_IsEqual_paths [of "example_heap(2 := bitmap_b\<lparr>bm_crop_box := None\<rparr>)"
      0 2 crop_rows 7, THEN conjunct1, THEN mp]
  have a: "Bitmap_IsEqual crop_rows example_heap 0 1 0 = IsEqual_fast crop_rows example_heap 0 1"
    using w1 by (rule conjunct1)
  have e1: "(bm_pixels (view crop_rows (example_heap 0)) = bm_pixels (view crop_rows (example_heap 1)))
      = True"
    unfolding example_views by simp
  have e2: "(bm_pixels (view crop_rows (example_heap 0)) = bm_pixels (view crop_rows (example_heap 2)))
      = False"
    unfolding example_views by (simp add: bitmap_a_def bitmap_c_def)
  from w1 have "\<exists>st1 st2. IsEqual_fast crop_rows example_heap 0 1 = (Inr True, st1)
          \<and> IsEqual_scan crop_rows example_heap 0 1 0 = (Inr True, st2)"
    unfolding e1 by (elim conjE)
  then have b: "fst (IsEqual_fast crop_rows example_heap 0 1) = Inr True"
    "fst (IsEqual_scan crop_rows example_heap 0 1 0) = Inr True"
    by auto
  from w2 have "\<exists>st1 st2. IsEqual_fast crop_rows example_heap 0 2 = (Inr False, st1)
          \<and> IsEqual_scan crop_rows example_heap 0 2 0 = (Inr False, st2)"
    unfolding e2 by (elim conjE)
  then have c: "fst (IsEqual_fast crop_rows example_heap 0 2) = Inr False"
    "fst (IsEqual_scan crop_rows example_heap 0 2 0) = Inr False"
    by auto
  have d: "Bitmap_IsEqual crop_rows (example_heap(2 := bitmap_b\<lparr>bm_crop_box := None\<rparr>)) 0 2 7
       = (Inr False, example_heap(2 := bitmap_b\<lparr>bm_crop_box := None\<rparr>))"
    by (rule w3) (simp add: Bitmap_width_def example_heap_def bitmap_a_def bitmap_b_def)
  from a b c d show ?thesis by (intro conjI)
qed

text \<open>
  C10. \<open>Crop\<close> does not check the sign of the requested size: whenever \<open>left\<close> and \<open>top\<close> are
  not negative and \<open>left + width\<close> and \<open>top + height\<close> stay within the current logical size,
  the call succeeds, whatever the signs of \<open>width\<close> and \<open>height\<close>, and the bitmap then
  reports \<open>width\<close> and \<open>height\<close> as its logical size, zero or negative if they are.
\<close>

theorem Crop_accepts_nonpositive_size:
  assumes "0 \<le> left" and "0 \<le> top'"
    and "left + width \<le> Bitmap_width st self" and "top' + height \<le> Bitmap_height st self"
  shows "\<exists>st'. Crop st self left top' width height = (Inr self, st')
      \<and> Bitmap_width st' self = width \<and> Bitmap_height st' self = height
      \<and> (width \<le> 0 \<longrightarrow> Bitmap_width st' self \<le> 0)
      \<and> (height \<le> 0 \<longrightarrow> Bitmap_height st' self \<le> 0)"
  using assms
  by (auto simp: Crop_def Bitmap_width_def Bitmap_height_def split: option.splits prod.splits)

theorem Crop_accepts_nonpositive_size_witness:
  "(\<exists>st'. Crop example_heap 0 1 0 (- 1) 0 = (Inr 0, st')
      \<and> Bitmap_width st' 0 = - 1 \<and> Bitmap_height st' 0 = 0
      \<and> Bitmap_width st' 0 \<le> 0 \<and> Bitmap_height st' 0 \<le> 0)"
  using Crop_accepts_nonpositive_size [of 1 0 "- 1" example_heap 0 0]
  by (simp add: Bitmap_width_def Bitmap_height_def example_heap_def bitmap_a_def)

end
